theory Spec2Isabelle
  imports Complex_Main "HOL-Library.Word" "HOL-Library.AList"
begin

section \<open>The column-letter codec\<close>

text \<open>
  \<^verbatim>\<open>zeroBasedColumnNumberToSpreadsheetColumnLetters(num)\<close> of \<^verbatim>\<open>src/index.js\<close>.
  Its argument is the result of \<^verbatim>\<open>fields.indexOf(prop)\<close> once \<^verbatim>\<open>-1\<close> has been excluded, a
  natural number. On natural numbers \<^verbatim>\<open>num % 26\<close> is \<open>mod\<close> and \<^verbatim>\<open>Math.floor(num / 26)\<close>
  is \<open>div\<close>; \<^verbatim>\<open>"A".charCodeAt(0)\<close> is 65.
\<close>

function zeroBasedColumnNumberToSpreadsheetColumnLetters :: "nat \<Rightarrow> string" where
  "zeroBasedColumnNumberToSpreadsheetColumnLetters num =
     (let modulo = num mod 26;
          letter = char_of (65 + modulo);
          remainder = num div 26
      in if remainder = 0 then [letter]
         else zeroBasedColumnNumberToSpreadsheetColumnLetters (remainder - 1) @ [letter])"
  by pat_completeness auto
termination
  by (relation "measure id") auto

declare zeroBasedColumnNumberToSpreadsheetColumnLetters.simps [simp del]

text \<open>
  The value a string of letters denotes in bijective base 26 (\<open>A\<close> is 1, \<open>Z\<close> is 26,
  \<open>AA\<close> is 27), and the order of spreadsheet columns: shorter names first, names of the
  same length alphabetically.
\<close>

definition letterValue :: "string \<Rightarrow> nat" where
  "letterValue s = foldl (\<lambda>acc c. acc * 26 + (of_char c - 64)) 0 s"

fun alphabetically :: "string \<Rightarrow> string \<Rightarrow> bool" where
  "alphabetically [] [] = False"
| "alphabetically [] (d # t) = True"
| "alphabetically (c # s) [] = False"
| "alphabetically (c # s) (d # t) =
     ((of_char c :: nat) < of_char d \<or> (c = d \<and> alphabetically s t))"

definition columnBefore :: "string \<Rightarrow> string \<Rightarrow> bool" where
  "columnBefore s t = (length s < length t \<or> (length s = length t \<and> alphabetically s t))"


section \<open>Values of the language\<close>

text \<open>
  The values the code handles: cells, query values and patch values. A number is modelled
  by the exact rational value it denotes, or one of \<open>NaN\<close>, \<open>Infinity\<close>, \<open>-Infinity\<close>;
  rounding to binary64 is outside the model, so two numerals that differ only beyond
  binary64 precision are different numbers here. The two zeros are one value, as they are for
  \<^verbatim>\<open>===\<close>. The code performs no arithmetic on these numbers: it parses and compares them.
\<close>

datatype jsnum = NaN | PInf | NInf | Fin rat

datatype jsval = JUndefined | JNull | JBool bool | JNum jsnum | JStr string

text \<open>\<^verbatim>\<open>a === b\<close>: the same value of the same type, and \<open>NaN\<close> is not equal to itself.\<close>

definition strictEq :: "jsval \<Rightarrow> jsval \<Rightarrow> bool" where
  "strictEq a b = (a = b \<and> a \<noteq> JNum NaN)"

definition isNaN :: "jsnum \<Rightarrow> bool" where
  "isNaN n = (n = NaN)"

text \<open>
  White space as \<^verbatim>\<open>String.prototype.trim\<close> and \<^verbatim>\<open>Number\<close> strip it: tab, line feed,
  vertical tab, form feed, carriage return, space and no-break space (the code units below
  256; a \<open>char\<close> is one code unit of that range).
\<close>

definition isWhiteSpace :: "char \<Rightarrow> bool" where
  "isWhiteSpace c = ((of_char c :: nat) \<in> {9, 10, 11, 12, 13, 32, 160})"

definition trim :: "string \<Rightarrow> string" where
  "trim s = rev (dropWhile isWhiteSpace (rev (dropWhile isWhiteSpace s)))"

subsection \<open>\<^verbatim>\<open>Number(v)\<close>\<close>

text \<open>
  The conversion of a string follows the grammar of \<^verbatim>\<open>StringNumericLiteral\<close>: white space
  is stripped; the empty string is 0; \<^verbatim>\<open>0x\<close>, \<^verbatim>\<open>0o\<close> and \<^verbatim>\<open>0b\<close> start an unsigned
  integer in radix 16, 8 and 2; otherwise an optional sign is followed by \<^verbatim>\<open>Infinity\<close> or
  by decimal digits with an optional fraction and an optional exponent. Anything else is
  \<open>NaN\<close>.
\<close>

definition digitVal :: "char \<Rightarrow> nat option" where
  "digitVal c =
     (let n = (of_char c :: nat)
      in if 48 \<le> n \<and> n \<le> 57 then Some (n - 48)
         else if 97 \<le> n \<and> n \<le> 102 then Some (n - 87)
         else if 65 \<le> n \<and> n \<le> 70 then Some (n - 55)
         else None)"

definition isDigitIn :: "nat \<Rightarrow> char \<Rightarrow> bool" where
  "isDigitIn radix c = (case digitVal c of Some d \<Rightarrow> d < radix | None \<Rightarrow> False)"

definition digitsValue :: "nat \<Rightarrow> string \<Rightarrow> nat" where
  "digitsValue radix ds =
     foldl (\<lambda>acc c. acc * radix + (case digitVal c of Some d \<Rightarrow> d | None \<Rightarrow> 0)) 0 ds"

definition radixLiteral :: "nat \<Rightarrow> string \<Rightarrow> jsnum" where
  "radixLiteral radix ds =
     (if ds \<noteq> [] \<and> list_all (isDigitIn radix) ds then Fin (of_nat (digitsValue radix ds))
      else NaN)"

definition scaleDecimal :: "nat \<Rightarrow> int \<Rightarrow> rat" where
  "scaleDecimal m e = (if 0 \<le> e then of_nat m * 10 ^ nat e else of_nat m / 10 ^ nat (- e))"

definition signedInteger :: "string \<Rightarrow> int option" where
  "signedInteger ds =
     (let body = (if ds \<noteq> [] \<and> (hd ds = CHR ''+'' \<or> hd ds = CHR ''-'') then tl ds else ds)
      in if body = [] \<or> \<not> list_all (isDigitIn 10) body then None
         else if ds \<noteq> [] \<and> hd ds = CHR ''-'' then Some (- int (digitsValue 10 body))
         else Some (int (digitsValue 10 body)))"

definition exponentPart :: "string \<Rightarrow> int option" where
  "exponentPart r =
     (case r of [] \<Rightarrow> Some 0
      | c # ds \<Rightarrow> if c = CHR ''e'' \<or> c = CHR ''E'' then signedInteger ds else None)"

definition strUnsignedDecimal :: "string \<Rightarrow> jsnum" where
  "strUnsignedDecimal u =
     (if u = ''Infinity'' then PInf
      else
        let ip = takeWhile (isDigitIn 10) u;
            r1 = dropWhile (isDigitIn 10) u;
            dot = (r1 \<noteq> [] \<and> hd r1 = CHR ''.'');
            fp = (if dot then takeWhile (isDigitIn 10) (tl r1) else []);
            r2 = (if dot then dropWhile (isDigitIn 10) (tl r1) else r1)
        in if ip = [] \<and> fp = [] then NaN
           else (case exponentPart r2 of
                   None \<Rightarrow> NaN
                 | Some e \<Rightarrow> Fin (scaleDecimal (digitsValue 10 (ip @ fp)) (e - int (length fp)))))"

fun negate :: "jsnum \<Rightarrow> jsnum" where
  "negate NaN = NaN"
| "negate PInf = NInf"
| "negate NInf = PInf"
| "negate (Fin r) = Fin (- r)"

definition stringToNumber :: "string \<Rightarrow> jsnum" where
  "stringToNumber s =
     (let t = trim s
      in if t = [] then Fin 0
         else if take 2 t = ''0x'' \<or> take 2 t = ''0X'' then radixLiteral 16 (drop 2 t)
         else if take 2 t = ''0o'' \<or> take 2 t = ''0O'' then radixLiteral 8 (drop 2 t)
         else if take 2 t = ''0b'' \<or> take 2 t = ''0B'' then radixLiteral 2 (drop 2 t)
         else if hd t = CHR ''+'' then strUnsignedDecimal (tl t)
         else if hd t = CHR ''-'' then negate (strUnsignedDecimal (tl t))
         else strUnsignedDecimal t)"

fun toNumber :: "jsval \<Rightarrow> jsnum" where
  "toNumber JUndefined = NaN"
| "toNumber JNull = Fin 0"
| "toNumber (JBool b) = Fin (if b then 1 else 0)"
| "toNumber (JNum n) = n"
| "toNumber (JStr s) = stringToNumber s"

subsection \<open>\<^verbatim>\<open>areEqual(a, b)\<close>\<close>

definition areEqual :: "jsval \<Rightarrow> jsval \<Rightarrow> bool" where
  "areEqual a b =
     (if strictEq a b then True
      else if \<not> isNaN (toNumber a) \<and> \<not> isNaN (toNumber b)
              \<and> strictEq (JNum (toNumber a)) (JNum (toNumber b)) then True
      else False)"

section \<open>Objects\<close>

text \<open>
  A record, a query and a patch are objects. An object is modelled by its own enumerable
  properties, in the order \<^verbatim>\<open>for ... in\<close> enumerates them, and by the enumerable properties
  it inherits from its prototype chain. Reading a property looks at the own properties
  first; an assignment writes an own property, in place when the key exists and at the end
  otherwise. The model stops at ordinary names: what every object inherits from
  \<^verbatim>\<open>Object.prototype\<close> (\<open>constructor\<close>, \<open>toString\<close>, the accessor \<open>__proto__\<close>, ...) is
  not enumerable and is not modelled, so that reading such a name that is not an own
  property gives \<^verbatim>\<open>undefined\<close> here and an assignment to \<open>__proto__\<close> is an ordinary
  write here; and keys that are canonical array indices, which the language enumerates
  first, keep their insertion order here.
\<close>

datatype jsobj =
  Obj (own: "(string \<times> jsval) list") (inherited: "(string \<times> jsval) list")

definition emptyObj :: jsobj where
  "emptyObj = Obj [] []"

definition getProp :: "jsobj \<Rightarrow> string \<Rightarrow> jsval" where
  "getProp obj k =
     (case map_of (own obj) k of
        Some v \<Rightarrow> v
      | None \<Rightarrow> (case map_of (inherited obj) k of Some v \<Rightarrow> v | None \<Rightarrow> JUndefined))"

definition setProp :: "jsobj \<Rightarrow> string \<Rightarrow> jsval \<Rightarrow> jsobj" where
  "setProp obj k v = Obj (AList.update k v (own obj)) (inherited obj)"

definition hasOwnProperty :: "jsobj \<Rightarrow> string \<Rightarrow> bool" where
  "hasOwnProperty obj k = (k \<in> set (map fst (own obj)))"

text \<open>\<^verbatim>\<open>for (const prop in obj)\<close>: the own keys, then the inherited keys no own key shadows.\<close>

definition forIn :: "jsobj \<Rightarrow> string list" where
  "forIn obj =
     map fst (own obj) @ filter (\<lambda>k. k \<notin> set (map fst (own obj))) (map fst (inherited obj))"

text \<open>\<^verbatim>\<open>{...obj}\<close>: a fresh plain object with the own enumerable properties of \<open>obj\<close>.\<close>

definition spread :: "jsobj \<Rightarrow> jsobj" where
  "spread obj = Obj (own obj) []"

section \<open>The pure helpers of \<^verbatim>\<open>src/index.js\<close>\<close>

text \<open>
  \<^verbatim>\<open>convertObjectToRow(fields, newProps)\<close>. The test \<^verbatim>\<open>!= null\<close> excludes \<^verbatim>\<open>undefined\<close> and
  \<^verbatim>\<open>null\<close>; every other value is rendered by its \<^verbatim>\<open>toString()\<close> and trimmed. The rendering
  of a number is the shortest decimal that reads back as the same binary64 value; it is the
  parameter \<open>numToString\<close> of the embedding.
\<close>

definition convertObjectToRow :: "(jsnum \<Rightarrow> string) \<Rightarrow> string list \<Rightarrow> jsobj \<Rightarrow> string list" where
  "convertObjectToRow numToString fields newProps =
     map (\<lambda>fieldName.
            case getProp newProps fieldName of
              JUndefined \<Rightarrow> ''''
            | JNull \<Rightarrow> ''''
            | JBool b \<Rightarrow> trim (if b then ''true'' else ''false'')
            | JNum n \<Rightarrow> trim (numToString n)
            | JStr s \<Rightarrow> trim s)
         fields"

text \<open>\<^verbatim>\<open>dataMatchesQuery(dataRow, query)\<close>; a query that is \<^verbatim>\<open>null\<close> or absent is \<open>None\<close>.\<close>

fun matchProps :: "jsobj \<Rightarrow> jsobj \<Rightarrow> string list \<Rightarrow> bool" where
  "matchProps dataRow query [] = True"
| "matchProps dataRow query (prop # props) =
     (if \<not> hasOwnProperty query prop then matchProps dataRow query props
      else if \<not> areEqual (getProp dataRow prop) (getProp query prop) then False
      else matchProps dataRow query props)"

fun dataMatchesQuery :: "jsobj \<Rightarrow> jsobj option \<Rightarrow> bool" where
  "dataMatchesQuery dataRow None = True"
| "dataMatchesQuery dataRow (Some query) = matchProps dataRow query (forIn query)"

text \<open>\<^verbatim>\<open>fields.indexOf(prop)\<close>: the first position holding \<open>prop\<close>; \<open>None\<close> stands for \<^verbatim>\<open>-1\<close>.\<close>

fun indexOf :: "string list \<Rightarrow> string \<Rightarrow> nat option" where
  "indexOf [] x = None"
| "indexOf (y # ys) x = (if y = x then Some 0 else map_option Suc (indexOf ys x))"

text \<open>The decimal rendering of a row number inside a template literal.\<close>

function showNat :: "nat \<Rightarrow> string" where
  "showNat n = (if n < 10 then [char_of (48 + n)] else showNat (n div 10) @ [char_of (48 + n mod 10)])"
  by pat_completeness auto
termination
  by (relation "measure id") auto

declare showNat.simps [simp del]

section \<open>The store\<close>

text \<open>
  The remote service is reached through three calls. \<^verbatim>\<open>values.get\<close> answers with the rows
  of the range, header first, every cell a string; the answer has no \<^verbatim>\<open>values\<close> at all
  (\<open>None\<close>) when the range is empty. Within one operation every \<^verbatim>\<open>values.get\<close> receives the
  same answer \<open>sheet\<close>. Each operation returns the remote calls it issued, in order, and its
  outcome; an exception is \<open>Inl\<close>.
\<close>

datatype error = TypeError | BadField string

datatype call =
    ValuesGet
  | ValuesAppend "string list list"
  | ValuesBatchUpdate "(string \<times> jsval) list"

text \<open>\<^verbatim>\<open>fields[0] = 'ID'\<close>: an assignment at index 0 of an empty array extends it.\<close>

definition renameFirst :: "string list \<Rightarrow> string list" where
  "renameFirst header = (case header of [] \<Rightarrow> [''ID''] | f # fs \<Rightarrow> ''ID'' # fs)"

text \<open>\<^verbatim>\<open>row[index]\<close>: \<^verbatim>\<open>undefined\<close> beyond the end of the row.\<close>

definition cellAt :: "string list \<Rightarrow> nat \<Rightarrow> jsval" where
  "cellAt row index = (if index < length row then JStr (row ! index) else JUndefined)"

definition newItem :: "string list \<Rightarrow> string list \<Rightarrow> jsobj" where
  "newItem fields row =
     foldl (\<lambda>item index. setProp item (fields ! index) (cellAt row index)) emptyObj
       [0..<length fields]"

text \<open>
  \<^verbatim>\<open>_query(query)\<close>. Destructuring an absent \<^verbatim>\<open>values\<close> throws, and so does the assignment
  \<^verbatim>\<open>fields[0] = 'ID'\<close> when there is no first row.
\<close>

definition query_op :: "string list list option \<Rightarrow> jsobj option \<Rightarrow> call list \<times> (error + jsobj list)" where
  "query_op sheet query =
     ([ValuesGet],
      case sheet of
        None \<Rightarrow> Inl TypeError
      | Some [] \<Rightarrow> Inl TypeError
      | Some (header # rest) \<Rightarrow>
          let fields = renameFirst header
          in Inr (foldl (\<lambda>accum row.
                           let item = newItem fields row
                           in if dataMatchesQuery item query then accum @ [item] else accum)
                    [] rest))"

text \<open>\<^verbatim>\<open>_fields()\<close>.\<close>

definition fields_op :: "string list list option \<Rightarrow> call list \<times> (error + string list)" where
  "fields_op sheet =
     ([ValuesGet],
      case sheet of
        None \<Rightarrow> Inl TypeError
      | Some [] \<Rightarrow> Inl TypeError
      | Some (header # rest) \<Rightarrow> Inr (renameFirst header))"

subsection \<open>\<^verbatim>\<open>_update(query, values)\<close>\<close>

text \<open>
  The inner loop over the properties of the patch \<open>values\<close>, for one matching record. Its
  state is \<^verbatim>\<open>updatedSomething\<close>, \<^verbatim>\<open>updatedDataRow\<close> and \<^verbatim>\<open>updateData\<close>; a cell write is the
  pair of its range and its value.
\<close>

fun patchLoop ::
  "string \<Rightarrow> string list \<Rightarrow> jsobj \<Rightarrow> nat \<Rightarrow> string list \<Rightarrow>
     bool \<times> jsobj \<times> (string \<times> jsval) list \<Rightarrow> error + bool \<times> jsobj \<times> (string \<times> jsval) list" where
  "patchLoop sheetName fields values dataRowIndex [] st = Inr st"
| "patchLoop sheetName fields values dataRowIndex (prop # props)
       (updatedSomething, updatedDataRow, updateData) =
     (if \<not> hasOwnProperty values prop
      then patchLoop sheetName fields values dataRowIndex props
             (updatedSomething, updatedDataRow, updateData)
      else
        let propValue = getProp values prop;
            updatedDataRow' = setProp updatedDataRow prop propValue
        in (case indexOf fields prop of
              None \<Rightarrow> Inl (BadField prop)
            | Some columnNumber \<Rightarrow>
                let columnLetters = zeroBasedColumnNumberToSpreadsheetColumnLetters columnNumber;
                    range = sheetName @ ''!'' @ columnLetters @ showNat (dataRowIndex + 2)
                in patchLoop sheetName fields values dataRowIndex props
                     (True, updatedDataRow', updateData @ [(range, propValue)])))"

text \<open>The outer loop over \<^verbatim>\<open>Object.entries(data)\<close>, with state \<^verbatim>\<open>updateData\<close> and \<^verbatim>\<open>changedItems\<close>.\<close>

fun rowLoop ::
  "string \<Rightarrow> string list \<Rightarrow> jsobj option \<Rightarrow> jsobj \<Rightarrow> (nat \<times> jsobj) list \<Rightarrow>
     (string \<times> jsval) list \<times> jsobj list \<Rightarrow> error + (string \<times> jsval) list \<times> jsobj list" where
  "rowLoop sheetName fields query values [] st = Inr st"
| "rowLoop sheetName fields query values ((dataRowIndex, dataRow) # entries)
       (updateData, changedItems) =
     (if \<not> dataMatchesQuery dataRow query
      then rowLoop sheetName fields query values entries (updateData, changedItems)
      else
        case patchLoop sheetName fields values dataRowIndex (forIn values)
               (False, spread dataRow, updateData) of
          Inl e \<Rightarrow> Inl e
        | Inr (updatedSomething, updatedDataRow, updateData') \<Rightarrow>
            rowLoop sheetName fields query values entries
              (updateData',
               if updatedSomething then changedItems @ [updatedDataRow] else changedItems))"

text \<open>The outcome \<open>Inr None\<close> is the \<^verbatim>\<open>return;\<close> without a value.\<close>

definition update_op ::
  "string \<Rightarrow> string list list option \<Rightarrow> jsobj option \<Rightarrow> jsobj \<Rightarrow>
     call list \<times> (error + jsobj list option)" where
  "update_op sheetName sheet query values =
     (case query_op sheet None of
        (c1, Inl e) \<Rightarrow> (c1, Inl e)
      | (c1, Inr data) \<Rightarrow>
          if length data = 0 then (c1, Inr None)
          else
            (case fields_op sheet of
               (c2, Inl e) \<Rightarrow> (c1 @ c2, Inl e)
             | (c2, Inr fields) \<Rightarrow>
                 (case rowLoop sheetName fields query values (enumerate 0 data) ([], []) of
                    Inl e \<Rightarrow> (c1 @ c2, Inl e)
                  | Inr (updateData, changedItems) \<Rightarrow>
                      (c1 @ c2 @ [ValuesBatchUpdate updateData], Inr (Some changedItems)))))"

subsection \<open>\<^verbatim>\<open>_insert(newData)\<close>\<close>

text \<open>
  \<^verbatim>\<open>_insert\<close> writes into the objects its caller passes, so these live in a store: an
  address stands for the identity of an object, and the argument is one address or an array
  of addresses. The records \<^verbatim>\<open>_query\<close> builds are private to the call and never written, so
  the array \<^verbatim>\<open>data\<close> holds them by value and the caller's objects by address.
\<close>

type_synonym addr = nat

type_synonym heap = "addr \<Rightarrow> jsobj"

datatype dataref = Fetched jsobj | Given addr

datatype newData = Single addr | Many "addr list"

fun deref :: "heap \<Rightarrow> dataref \<Rightarrow> jsobj" where
  "deref h (Fetched obj) = obj"
| "deref h (Given a) = h a"

text \<open>
  \<^verbatim>\<open>crypto.randomBytes(4).toString("hex").toUpperCase()\<close>. The four random bytes are a
  32-bit word, first byte most significant; the randomness is the list of the words the
  generator will deliver, in order.
\<close>

definition hexDigit :: "nat \<Rightarrow> char" where
  "hexDigit d = (if d < 10 then char_of (48 + d) else char_of (87 + d))"

definition toUpperCase :: "string \<Rightarrow> string" where
  "toUpperCase s =
     map (\<lambda>c. let n = (of_char c :: nat) in if 97 \<le> n \<and> n \<le> 122 then char_of (n - 32) else c) s"

definition randomBytes4 :: "32 word \<Rightarrow> 8 word list" where
  "randomBytes4 w = map (\<lambda>i. ucast (drop_bit (8 * i) w)) [3, 2, 1, 0]"

definition toHex :: "8 word list \<Rightarrow> string" where
  "toHex bytes = concat (map (\<lambda>b. [hexDigit (unat b div 16), hexDigit (unat b mod 16)]) bytes)"

definition proposeId :: "32 word \<Rightarrow> string" where
  "proposeId w = toUpperCase (toHex (randomBytes4 w))"

text \<open>An upper-case hexadecimal character: a digit, or a letter from \<open>A\<close> to \<open>F\<close>.\<close>

definition upperHexChar :: "char \<Rightarrow> bool" where
  "upperHexChar c =
     (let n = (of_char c :: nat) in (48 \<le> n \<and> n \<le> 57) \<or> (65 \<le> n \<and> n \<le> 70))"

text \<open>
  The \<^verbatim>\<open>do ... while\<close> loop: draw until \<^verbatim>\<open>data.find(x => x.ID === proposedId)\<close> finds
  nothing. The result is the identifier and the draws left; \<open>None\<close> when every draw collides,
  where the source keeps looping.
\<close>

fun generateId :: "heap \<Rightarrow> dataref list \<Rightarrow> 32 word list \<Rightarrow> (string \<times> 32 word list) option" where
  "generateId h data [] = None"
| "generateId h data (w # ws) =
     (let proposedId = proposeId w
      in if list_ex (\<lambda>x. strictEq (getProp (deref h x) ''ID'') (JStr proposedId)) data
         then generateId h data ws
         else Some (proposedId, ws))"

text \<open>
  The identifiers the draws offer that no object of \<open>known\<close> carries, each listed once:
  the supply the loop can end on.
\<close>

definition unusedIds :: "heap \<Rightarrow> dataref list \<Rightarrow> 32 word list \<Rightarrow> string list" where
  "unusedIds h known draws =
     remdups (filter (\<lambda>p. \<not> list_ex (\<lambda>x. getProp (deref h x) ''ID'' = JStr p) known)
                (map proposeId draws))"

text \<open>
  The loop over \<^verbatim>\<open>newData\<close>, with the store, \<^verbatim>\<open>data\<close>, \<^verbatim>\<open>newRows\<close> and the draws left as its
  state.
\<close>

fun insertLoop ::
  "(jsnum \<Rightarrow> string) \<Rightarrow> string list \<Rightarrow> addr list \<Rightarrow>
     heap \<times> dataref list \<times> string list list \<times> 32 word list \<Rightarrow>
     (heap \<times> dataref list \<times> string list list \<times> 32 word list) option" where
  "insertLoop numToString fields [] st = Some st"
| "insertLoop numToString fields (newProps # more) (h, data, newRows, draws) =
     (case (if getProp (h newProps) ''ID'' = JUndefined
            then (case generateId h data draws of
                    None \<Rightarrow> None
                  | Some (proposedId, draws') \<Rightarrow>
                      Some (h(newProps := setProp (h newProps) ''ID'' (JStr proposedId)), draws'))
            else Some (h, draws)) of
        None \<Rightarrow> None
      | Some (h', draws') \<Rightarrow>
          insertLoop numToString fields more
            (h', data @ [Given newProps],
             newRows @ [convertObjectToRow numToString fields (h' newProps)], draws'))"

text \<open>
  The outcome of \<^verbatim>\<open>_insert\<close> is the returned array, as addresses, and the store it leaves;
  the whole result is \<open>None\<close> when the identifier loop does not end.
\<close>

definition insert_op ::
  "(jsnum \<Rightarrow> string) \<Rightarrow> string list list option \<Rightarrow> newData \<Rightarrow> heap \<Rightarrow> 32 word list \<Rightarrow>
     (call list \<times> (error + addr list \<times> heap)) option" where
  "insert_op numToString sheet newData h draws =
     (case query_op sheet None of
        (c1, Inl e) \<Rightarrow> Some (c1, Inl e)
      | (c1, Inr data) \<Rightarrow>
          (case fields_op sheet of
             (c2, Inl e) \<Rightarrow> Some (c1 @ c2, Inl e)
           | (c2, Inr fields) \<Rightarrow>
               let newData' = (case newData of Single a \<Rightarrow> [a] | Many as \<Rightarrow> as)
               in (case insertLoop numToString fields newData' (h, map Fetched data, [], draws) of
                     None \<Rightarrow> None
                   | Some (h', data', newRows, draws') \<Rightarrow>
                       Some (c1 @ c2 @ [ValuesAppend newRows], Inr (newData', h')))))"

section \<open>Properties of the column-letter codec\<close>

lemma letters_unfold:
  "zeroBasedColumnNumberToSpreadsheetColumnLetters n =
     (if n div 26 = 0 then [char_of (65 + n mod 26)]
      else zeroBasedColumnNumberToSpreadsheetColumnLetters (n div 26 - 1) @ [char_of (65 + n mod 26)])"
  by (subst zeroBasedColumnNumberToSpreadsheetColumnLetters.simps) (simp add: Let_def)

lemma letter_code: "m < 26 \<Longrightarrow> (of_char (char_of (65 + m :: nat)) :: nat) = 65 + m"
  by simp

lemma letterValue_snoc: "letterValue (s @ [c]) = letterValue s * 26 + (of_char c - 64)"
  by (simp add: letterValue_def)

lemma letterValue_letters:
  "letterValue (zeroBasedColumnNumberToSpreadsheetColumnLetters n) = n + 1"
proof (induction n rule: less_induct)
  case (less n)
  have m: "n mod 26 < 26" by simp
  show ?case
  proof (cases "n div 26 = 0")
    case True
    then have "n mod 26 = n" by (simp add: div_eq_0_iff)
    with True m show ?thesis
      by (subst letters_unfold) (simp add: letterValue_def letter_code)
  next
    case False
    then have "n div 26 - 1 < n" by (simp add: div_eq_0_iff)
    from less.IH [OF this] False m show ?thesis
      by (subst letters_unfold) (simp add: letterValue_snoc letter_code)
  qed
qed

lemma letters_upper:
  "c \<in> set (zeroBasedColumnNumberToSpreadsheetColumnLetters n) \<Longrightarrow>
     65 \<le> (of_char c :: nat) \<and> (of_char c :: nat) \<le> 90"
proof (induction n arbitrary: c rule: less_induct)
  case (less n)
  have m: "n mod 26 < 26" by simp
  show ?case
  proof (cases "n div 26 = 0")
    case True
    with less.prems have "c = char_of (65 + n mod 26)"
      by (subst (asm) letters_unfold) simp
    with m show ?thesis by (simp add: letter_code)
  next
    case False
    then have lt: "n div 26 - 1 < n" by (simp add: div_eq_0_iff)
    from less.prems False
    have "c \<in> set (zeroBasedColumnNumberToSpreadsheetColumnLetters (n div 26 - 1))
            \<or> c = char_of (65 + n mod 26)"
      by (subst (asm) letters_unfold) auto
    then show ?thesis
    proof
      assume "c \<in> set (zeroBasedColumnNumberToSpreadsheetColumnLetters (n div 26 - 1))"
      then show ?thesis by (rule less.IH [OF lt])
    next
      assume "c = char_of (65 + n mod 26)"
      with m show ?thesis by (simp add: letter_code)
    qed
  qed
qed

lemma alphabetically_snoc:
  "length s = length t \<Longrightarrow>
     alphabetically (s @ [c]) (t @ [d]) =
       (alphabetically s t \<or> (s = t \<and> (of_char c :: nat) < of_char d))"
  by (induction s t rule: list_induct2) auto

lemma columnBefore_snoc:
  "columnBefore s t \<Longrightarrow> columnBefore (s @ [c]) (t @ [d])"
  by (auto simp: columnBefore_def alphabetically_snoc)

lemma letters_nonempty: "zeroBasedColumnNumberToSpreadsheetColumnLetters n \<noteq> []"
  by (subst letters_unfold) simp

lemma letters_mono:
  "i < j \<Longrightarrow> columnBefore (zeroBasedColumnNumberToSpreadsheetColumnLetters i)
                          (zeroBasedColumnNumberToSpreadsheetColumnLetters j)"
proof (induction j arbitrary: i rule: less_induct)
  case (less j)
  let ?L = zeroBasedColumnNumberToSpreadsheetColumnLetters
  have mi: "i mod 26 < 26" and mj: "j mod 26 < 26" by simp_all
  have dle: "i div 26 \<le> j div 26" using less.prems by (simp add: div_le_mono)
  show ?case
  proof (cases "i div 26 = j div 26")
    case True
    then have "i mod 26 < j mod 26" using less.prems
      by (metis add_less_cancel_left mult_div_mod_eq)
    then have lt: "(of_char (char_of (65 + i mod 26)) :: nat) < of_char (char_of (65 + j mod 26))"
      using mi mj by (simp add: letter_code)
    show ?thesis
    proof (cases "j div 26 = 0")
      case z: True
      with True lt show ?thesis
        by (subst (1 2) letters_unfold) (simp add: columnBefore_def)
    next
      case nz: False
      with True lt show ?thesis
        by (subst (1 2) letters_unfold) (simp add: columnBefore_def alphabetically_snoc)
    qed
  next
    case False
    with dle have dlt: "i div 26 < j div 26" by simp
    then have jn: "j div 26 \<noteq> 0" by simp
    then have jlt: "j div 26 - 1 < j" by (simp add: div_eq_0_iff)
    show ?thesis
    proof (cases "i div 26 = 0")
      case True
      with jn show ?thesis
        by (subst (1 2) letters_unfold) (simp add: columnBefore_def letters_nonempty)
    next
      case nz: False
      with dlt have "i div 26 - 1 < j div 26 - 1" by simp
      from less.IH [OF jlt this] nz jn show ?thesis
        by (subst (1 2) letters_unfold) (simp add: columnBefore_snoc)
    qed
  qed
qed

lemma letters_examples:
  "zeroBasedColumnNumberToSpreadsheetColumnLetters 0 = ''A''"
  "zeroBasedColumnNumberToSpreadsheetColumnLetters 25 = ''Z''"
  "zeroBasedColumnNumberToSpreadsheetColumnLetters 26 = ''AA''"
  "zeroBasedColumnNumberToSpreadsheetColumnLetters 27 = ''AB''"
  "zeroBasedColumnNumberToSpreadsheetColumnLetters 701 = ''ZZ''"
  "zeroBasedColumnNumberToSpreadsheetColumnLetters 702 = ''AAA''"
  by code_simp+

text \<open>
  Claim C6. The codec puts \<open>index mod 26\<close> last and recurses on \<open>index div 26 - 1\<close> until
  the quotient is 0. Its output is the bijective base-26 numeral of \<open>index + 1\<close> over the
  letters \<open>A\<close> to \<open>Z\<close>: 0 is \<open>A\<close>, 25 is \<open>Z\<close>, 26 is \<open>AA\<close>, 701 is \<open>ZZ\<close>, 702 is \<open>AAA\<close>.
  It is strictly monotonic: a smaller index gives a name that comes earlier in the order of
  spreadsheet columns (shorter first, then alphabetical).
\<close>

theorem column_letters_bijective_base26:
  "zeroBasedColumnNumberToSpreadsheetColumnLetters n =
     (if n div 26 = 0 then [char_of (65 + n mod 26)]
      else zeroBasedColumnNumberToSpreadsheetColumnLetters (n div 26 - 1) @ [char_of (65 + n mod 26)])
   \<and> letterValue (zeroBasedColumnNumberToSpreadsheetColumnLetters n) = n + 1
   \<and> (\<forall>c \<in> set (zeroBasedColumnNumberToSpreadsheetColumnLetters n).
         65 \<le> (of_char c :: nat) \<and> (of_char c :: nat) \<le> 90)
   \<and> zeroBasedColumnNumberToSpreadsheetColumnLetters 0 = ''A''
   \<and> zeroBasedColumnNumberToSpreadsheetColumnLetters 25 = ''Z''
   \<and> zeroBasedColumnNumberToSpreadsheetColumnLetters 26 = ''AA''
   \<and> zeroBasedColumnNumberToSpreadsheetColumnLetters 701 = ''ZZ''
   \<and> zeroBasedColumnNumberToSpreadsheetColumnLetters 702 = ''AAA''
   \<and> (\<forall>m. n < m \<longrightarrow>
         columnBefore (zeroBasedColumnNumberToSpreadsheetColumnLetters n)
                      (zeroBasedColumnNumberToSpreadsheetColumnLetters m))"
  using letters_unfold [of n] letterValue_letters [of n] letters_upper [of _ n]
    letters_mono [of n] letters_examples
  by blast

theorem column_letters_witness:
  "(26::nat) < 27
   \<and> zeroBasedColumnNumberToSpreadsheetColumnLetters 26 = ''AA''
   \<and> zeroBasedColumnNumberToSpreadsheetColumnLetters 27 = ''AB''
   \<and> columnBefore ''AA'' ''AB''
   \<and> letterValue ''AA'' = 27
   \<and> CHR ''A'' \<in> set ''AA'' \<and> 65 \<le> (of_char CHR ''A'' :: nat) \<and> (of_char CHR ''A'' :: nat) \<le> 90"
proof -
  have lt: "(26::nat) < 27" by simp
  have e: "zeroBasedColumnNumberToSpreadsheetColumnLetters 26 = ''AA''"
          "zeroBasedColumnNumberToSpreadsheetColumnLetters 27 = ''AB''"
    by (rule letters_examples)+
  from column_letters_bijective_base26 [of 26] lt
  have "columnBefore (zeroBasedColumnNumberToSpreadsheetColumnLetters 26)
                     (zeroBasedColumnNumberToSpreadsheetColumnLetters 27)"
    and "letterValue (zeroBasedColumnNumberToSpreadsheetColumnLetters 26) = 26 + 1"
    and "\<forall>c \<in> set (zeroBasedColumnNumberToSpreadsheetColumnLetters 26).
           65 \<le> (of_char c :: nat) \<and> (of_char c :: nat) \<le> 90"
    by blast+
  with e lt show ?thesis by simp
qed

section \<open>Properties of the value equality matcher\<close>

lemma areEqual_iff:
  "areEqual a b =
     (strictEq a b \<or> (toNumber a \<noteq> NaN \<and> toNumber b \<noteq> NaN \<and> toNumber a = toNumber b))"
  by (auto simp: areEqual_def strictEq_def isNaN_def)

lemma stringToNumber_examples:
  "stringToNumber '''' = Fin 0"
  "stringToNumber ''5'' = Fin 5"
  "stringToNumber ''05'' = Fin 5"
  "stringToNumber ''0'' = Fin 0"
  "stringToNumber ''abc'' = NaN"
  by code_simp+

text \<open>
  Claim C2 says that the empty string is not a number and that \<open>equal("", 0)\<close> is false.
  \<^verbatim>\<open>Number("")\<close> is 0, so the numeric branch of \<^verbatim>\<open>areEqual\<close> accepts the pair.
\<close>

theorem areEqual_empty_string_zero_counterexample:
  "areEqual (JStr '''') (JNum (Fin 0)) \<and> \<not> strictEq (JStr '''') (JNum (Fin 0))"
  by code_simp

text \<open>
  Claim C2, amended. \<^verbatim>\<open>areEqual\<close> is true iff the two values are strictly identical, or
  \<^verbatim>\<open>Number\<close> converts both to numbers other than \<open>NaN\<close> that are equal. So \<open>"5"\<close> and
  \<open>"05"\<close> match 5, \<open>"abc"\<close> matches \<open>"abc"\<close>, \<^verbatim>\<open>undefined\<close> matches \<^verbatim>\<open>undefined\<close> by the
  strict branch only; and the empty string converts to 0, so it matches 0, \<open>"0"\<close> and
  \<^verbatim>\<open>null\<close> besides itself, while it matches neither \<^verbatim>\<open>undefined\<close> nor \<open>"abc"\<close>.
\<close>

theorem areEqual_strict_or_numeric:
  "areEqual a b =
     (strictEq a b \<or> (toNumber a \<noteq> NaN \<and> toNumber b \<noteq> NaN \<and> toNumber a = toNumber b))
   \<and> areEqual (JStr ''5'') (JNum (Fin 5))
   \<and> areEqual (JStr ''05'') (JNum (Fin 5))
   \<and> areEqual (JStr ''abc'') (JStr ''abc'')
   \<and> areEqual JUndefined JUndefined
   \<and> toNumber JUndefined = NaN
   \<and> toNumber (JStr '''') = Fin 0
   \<and> areEqual (JStr '''') (JStr '''')
   \<and> areEqual (JStr '''') (JNum (Fin 0))
   \<and> areEqual (JStr '''') (JStr ''0'')
   \<and> areEqual (JStr '''') JNull
   \<and> \<not> areEqual (JStr '''') JUndefined
   \<and> \<not> areEqual (JStr '''') (JStr ''abc'')"
  by (simp add: areEqual_iff stringToNumber_examples strictEq_def)

theorem areEqual_witness:
  "areEqual (JStr '' 7.0 '') (JNum (Fin 7))
   \<and> \<not> strictEq (JStr '' 7.0 '') (JNum (Fin 7))
   \<and> toNumber (JStr '' 7.0 '') = Fin 7"
proof -
  have n: "toNumber (JStr '' 7.0 '') = Fin 7" by code_simp
  have "areEqual (JStr '' 7.0 '') (JNum (Fin 7)) =
          (strictEq (JStr '' 7.0 '') (JNum (Fin 7))
           \<or> (toNumber (JStr '' 7.0 '') \<noteq> NaN \<and> toNumber (JNum (Fin 7)) \<noteq> NaN
               \<and> toNumber (JStr '' 7.0 '') = toNumber (JNum (Fin 7))))"
    using areEqual_strict_or_numeric [of "JStr '' 7.0 ''" "JNum (Fin 7)"] by blast
  with n show ?thesis by (simp add: strictEq_def)
qed

section \<open>Properties of the query filter\<close>

lemma matchProps_iff:
  "matchProps dataRow query props =
     (\<forall>p \<in> set props. hasOwnProperty query p \<longrightarrow> areEqual (getProp dataRow p) (getProp query p))"
  by (induction props) auto

lemma forIn_own: "{p \<in> set (forIn query). hasOwnProperty query p} = set (map fst (own query))"
  by (auto simp: forIn_def hasOwnProperty_def)

lemma dataMatchesQuery_iff:
  "dataMatchesQuery dataRow (Some query) =
     (\<forall>k \<in> set (map fst (own query)). areEqual (getProp dataRow k) (getProp query k))"
proof -
  have "dataMatchesQuery dataRow (Some query) =
          (\<forall>p \<in> {p \<in> set (forIn query). hasOwnProperty query p}.
             areEqual (getProp dataRow p) (getProp query p))"
    by (simp add: matchProps_iff) blast
  then show ?thesis by (simp only: forIn_own)
qed

lemma getProp_own:
  "k \<in> set (map fst ps) \<Longrightarrow> getProp (Obj ps inh) k = getProp (Obj ps inh') k"
  by (auto simp: getProp_def map_of_eq_None_iff split: option.splits)

lemma dataMatchesQuery_inherited:
  "dataMatchesQuery dataRow (Some (Obj ps inh)) = dataMatchesQuery dataRow (Some (Obj ps inh'))"
  unfolding dataMatchesQuery_iff
  using getProp_own [of _ ps inh inh'] by (metis jsobj.sel(1))

text \<open>
  Claim C7. A record passes the filter iff, for every own enumerable key of the query, the
  matcher finds the record's value for the key equal to the query's. An absent query and a
  query without own keys match every record, and what the query inherits from its prototype
  never changes the result.
\<close>

theorem dataMatchesQuery_own_keys:
  "dataMatchesQuery dataRow None
   \<and> dataMatchesQuery dataRow (Some (Obj [] inh))
   \<and> dataMatchesQuery dataRow (Some query) =
       (\<forall>k \<in> set (map fst (own query)). areEqual (getProp dataRow k) (getProp query k))
   \<and> dataMatchesQuery dataRow (Some (Obj ps inh)) = dataMatchesQuery dataRow (Some (Obj ps inh'))"
  using dataMatchesQuery_iff [of dataRow query] dataMatchesQuery_iff [of dataRow "Obj [] inh"]
    dataMatchesQuery_inherited [of dataRow ps inh inh']
  by simp

theorem dataMatchesQuery_witness:
  "dataMatchesQuery (Obj [(''ID'', JStr ''AB12''), (''status'', JStr ''done'')] [])
     (Some (Obj [(''status'', JStr ''done'')] [(''ID'', JStr ''other'')]))
   \<and> areEqual (JStr ''done'') (JStr ''done'')
   \<and> \<not> dataMatchesQuery (Obj [(''ID'', JStr ''AB12''), (''status'', JStr ''done'')] [])
         (Some (Obj [(''status'', JStr ''done''), (''ID'', JStr ''other'')] []))"
proof -
  let ?r = "Obj [(''ID'', JStr ''AB12''), (''status'', JStr ''done'')] []"
  let ?q = "Obj [(''status'', JStr ''done'')] [(''ID'', JStr ''other'')]"
  let ?q' = "Obj [(''status'', JStr ''done''), (''ID'', JStr ''other'')] []"
  have e: "areEqual (JStr ''done'') (JStr ''done'')" "\<not> areEqual (JStr ''AB12'') (JStr ''other'')"
    by code_simp+
  have "dataMatchesQuery ?r (Some ?q) =
          (\<forall>k \<in> set (map fst (own ?q)). areEqual (getProp ?r k) (getProp ?q k))"
    and "dataMatchesQuery ?r (Some ?q') =
          (\<forall>k \<in> set (map fst (own ?q')). areEqual (getProp ?r k) (getProp ?q' k))"
    using dataMatchesQuery_own_keys [of ?r _ ?q] dataMatchesQuery_own_keys [of ?r _ ?q'] by blast+
  with e show ?thesis by (simp add: getProp_def)
qed

section \<open>Properties of the record projector\<close>

lemma indexOf_None_iff: "indexOf fs p = None \<longleftrightarrow> p \<notin> set fs"
  by (induction fs) auto

lemma indexOf_Some:
  "indexOf fs p = Some c \<Longrightarrow> c < length fs \<and> fs ! c = p \<and> (\<forall>j<c. fs ! j \<noteq> p)"
proof (induction fs arbitrary: c)
  case Nil
  then show ?case by simp
next
  case (Cons f fs)
  show ?case
  proof (cases "f = p")
    case True
    with Cons.prems show ?thesis by simp
  next
    case False
    with Cons.prems obtain c' where c': "indexOf fs p = Some c'" "c = Suc c'" by auto
    from Cons.IH [OF c'(1)] False c'(2) show ?thesis
      by (auto simp: nth_Cons split: nat.splits)
  qed
qed

lemma collect_matching:
  "foldl (\<lambda>accum row. if P (f row) then accum @ [f row] else accum) acc rows =
     acc @ filter P (map f rows)"
  by (induction rows arbitrary: acc) simp_all

lemma query_op_rows:
  "query_op (Some (header # rest)) query =
     ([ValuesGet],
      Inr (filter (\<lambda>item. dataMatchesQuery item query) (map (newItem (renameFirst header)) rest)))"
  using collect_matching [where f = "newItem (renameFirst header)"
      and P = "\<lambda>item. dataMatchesQuery item query" and acc = "[]" and rows = rest]
  by (simp add: query_op_def Let_def)

lemma query_op_all:
  "query_op (Some (header # rest)) None = ([ValuesGet], Inr (map (newItem (renameFirst header)) rest))"
  by (simp add: query_op_rows)

lemma fields_op_header:
  "fields_op (Some (header # rest)) = ([ValuesGet], Inr (renameFirst header))"
  by (simp add: fields_op_def)

lemma renameFirst_update:
  "renameFirst header = (if header = [] then [''ID''] else header[0 := ''ID''])"
  by (cases header) (simp_all add: renameFirst_def)

text \<open>
  Claim C9 says that the length of the field list equals the number of columns of the
  header row. A header row without cells (a blank first row above rows with data) has no
  column, and the assignment at position 0 extends it to the field list \<open>["ID"]\<close>.
\<close>

theorem field_list_length_counterexample:
  "fields_op (Some [[], [''x'', ''y'']]) = ([ValuesGet], Inr [''ID''])
   \<and> length [''ID''] \<noteq> length ([] :: string list)"
  by (simp add: fields_op_def renameFirst_def)

text \<open>
  Claim C9, amended. On every read (\<^verbatim>\<open>_fields\<close>, and \<^verbatim>\<open>_query\<close> for the keys of its
  records) the field list is the header row with position 0 set to \<open>"ID"\<close> whatever the
  cell holds; every other position keeps the header's name. Its length is the number of
  columns of the header row when that row has at least one cell, and 1 when it has none.
  \<^verbatim>\<open>indexOf\<close> finds the first position of a name, and nothing exactly for the names the
  list lacks.
\<close>

theorem field_list_is_renamed_header:
  "fields_op (Some (header # rest)) = ([ValuesGet], Inr (renameFirst header))
   \<and> query_op (Some (header # rest)) query =
       ([ValuesGet],
        Inr (filter (\<lambda>item. dataMatchesQuery item query)
               (map (newItem (renameFirst header)) rest)))
   \<and> renameFirst header = (if header = [] then [''ID''] else header[0 := ''ID''])
   \<and> renameFirst header ! 0 = ''ID''
   \<and> (\<forall>i. 0 < i \<longrightarrow> i < length header \<longrightarrow> renameFirst header ! i = header ! i)
   \<and> length (renameFirst header) = max 1 (length header)
   \<and> (header \<noteq> [] \<longrightarrow> length (renameFirst header) = length header)
   \<and> (indexOf fs p = None \<longleftrightarrow> p \<notin> set fs)
   \<and> (\<forall>c. indexOf fs p = Some c \<longrightarrow> c < length fs \<and> fs ! c = p \<and> (\<forall>j<c. fs ! j \<noteq> p))"
proof -
  have "renameFirst header ! 0 = ''ID''"
    by (cases header) (simp_all add: renameFirst_def)
  moreover have "\<forall>i. 0 < i \<longrightarrow> i < length header \<longrightarrow> renameFirst header ! i = header ! i"
    by (cases header) (auto simp: renameFirst_def nth_Cons split: nat.splits)
  moreover have "length (renameFirst header) = max 1 (length header)"
    by (cases header) (simp_all add: renameFirst_def)
  moreover have "header \<noteq> [] \<longrightarrow> length (renameFirst header) = length header"
    by (cases header) (simp_all add: renameFirst_def)
  moreover have "\<forall>c. indexOf fs p = Some c \<longrightarrow> c < length fs \<and> fs ! c = p \<and> (\<forall>j<c. fs ! j \<noteq> p)"
    using indexOf_Some [of fs p] by blast
  ultimately show ?thesis
    using fields_op_header [of header rest] query_op_rows [of header rest query]
      renameFirst_update [of header] indexOf_None_iff [of fs p]
    by blast
qed

theorem field_list_witness:
  "fields_op (Some [[''Name'', ''Status'', ''Name''], [''a'', ''open'', ''b'']]) =
     ([ValuesGet], Inr [''ID'', ''Status'', ''Name''])
   \<and> [''Name'', ''Status'', ''Name''] \<noteq> []
   \<and> length [''ID'', ''Status'', ''Name''] = length [''Name'', ''Status'', ''Name'']
   \<and> (0::nat) < 2 \<and> 2 < length [''Name'', ''Status'', ''Name'']
   \<and> [''ID'', ''Status'', ''Name''] ! 2 = [''Name'', ''Status'', ''Name''] ! 2
   \<and> indexOf [''ID'', ''Name'', ''Name''] ''Name'' = Some 1
   \<and> [''ID'', ''Name'', ''Name''] ! 1 = ''Name''
   \<and> [''ID'', ''Name'', ''Name''] ! 0 \<noteq> ''Name''"
proof -
  let ?h = "[''Name'', ''Status'', ''Name'']"
  have r: "renameFirst ?h = [''ID'', ''Status'', ''Name'']" by (simp add: renameFirst_def)
  have i: "indexOf [''ID'', ''Name'', ''Name''] ''Name'' = Some 1" by simp
  note t = field_list_is_renamed_header
    [of ?h "[[''a'', ''open'', ''b'']]" None "[''ID'', ''Name'', ''Name'']" "''Name''"]
  from t have "fields_op (Some [?h, [''a'', ''open'', ''b'']]) = ([ValuesGet], Inr (renameFirst ?h))"
    by blast
  moreover from t have "length (renameFirst ?h) = length ?h" by blast
  moreover from t have "renameFirst ?h ! 2 = ?h ! 2" by simp
  moreover from t i have "[''ID'', ''Name'', ''Name''] ! 1 = ''Name''
      \<and> (\<forall>j<1. [''ID'', ''Name'', ''Name''] ! j \<noteq> ''Name'')" by blast
  ultimately show ?thesis using r i by simp
qed

lemma getProp_setProp:
  "getProp (setProp obj k v) k' = (if k' = k then v else getProp obj k')"
  by (simp add: getProp_def setProp_def update_conv' split: option.splits)

lemma partial_item_get:
  "distinct fields \<Longrightarrow> n \<le> length fields \<Longrightarrow> i < n \<Longrightarrow>
     getProp (foldl (\<lambda>item index. setProp item (fields ! index) (cellAt row index)) emptyObj [0..<n])
       (fields ! i) = cellAt row i"
proof (induction n)
  case 0
  then show ?case by simp
next
  case (Suc n)
  show ?case
  proof (cases "i = n")
    case True
    then show ?thesis by (simp add: getProp_setProp)
  next
    case False
    with Suc.prems have "i < n" "n < length fields" "i < length fields" by simp_all
    with Suc.prems(1) False have "fields ! i \<noteq> fields ! n"
      by (simp add: nth_eq_iff_index_eq)
    with Suc.IH [OF Suc.prems(1)] \<open>i < n\<close> \<open>n < length fields\<close> show ?thesis
      by (simp add: getProp_setProp)
  qed
qed

lemma newItem_get:
  "distinct fields \<Longrightarrow> i < length fields \<Longrightarrow> getProp (newItem fields row) (fields ! i) = cellAt row i"
  unfolding newItem_def by (rule partial_item_get) simp_all

lemma round_trip_row:
  assumes "distinct fields"
  shows "convertObjectToRow numToString fields (newItem fields row) =
           map (\<lambda>j. if j < length row then trim (row ! j) else '''') [0..<length fields]"
proof (rule nth_equalityI)
  show "length (convertObjectToRow numToString fields (newItem fields row)) =
          length (map (\<lambda>j. if j < length row then trim (row ! j) else '''') [0..<length fields])"
    by (simp add: convertObjectToRow_def)
next
  fix i
  assume "i < length (convertObjectToRow numToString fields (newItem fields row))"
  then have i: "i < length fields" by (simp add: convertObjectToRow_def)
  with assms show "convertObjectToRow numToString fields (newItem fields row) ! i =
          map (\<lambda>j. if j < length row then trim (row ! j) else '''') [0..<length fields] ! i"
    by (simp add: convertObjectToRow_def newItem_get cellAt_def)
qed

text \<open>
  Claim C8 says that the round trip reproduces the rows of every block. When two columns
  carry the same name the record keeps one value for both, the later cell's, and the round
  trip writes it into both positions.
\<close>

theorem round_trip_duplicate_names_counterexample:
  "\<forall>numToString.
     query_op (Some [[''K'', ''Tag'', ''Tag''], [''1'', ''x'', ''y'']]) None =
       ([ValuesGet], Inr [Obj [(''ID'', JStr ''1''), (''Tag'', JStr ''y'')] []])
     \<and> convertObjectToRow numToString [''ID'', ''Tag'', ''Tag'']
         (Obj [(''ID'', JStr ''1''), (''Tag'', JStr ''y'')] []) = [''1'', ''y'', ''y'']
     \<and> [''1'', ''y'', ''y''] \<noteq> map trim [''1'', ''x'', ''y'']"
  by (rule allI) code_simp

text \<open>
  Claim C8, amended. For every header and rows block whose field list (the header with
  position 0 renamed) has pairwise distinct names, none of them \<open>__proto__\<close> (the one
  name a plain object takes through a setter, so that assigning a cell to it stores
  nothing in the record), projecting the data rows to records and
  converting each record back with the same field list gives, for every row, one cell per
  field: the trimmed original cell where the row has one, the empty string where the row
  is shorter. So a row as long as the field list comes back trimmed, a shorter row yields
  \<^verbatim>\<open>undefined\<close> for its missing trailing fields and comes back padded with empty strings,
  and the cells of a longer row beyond the field list are dropped.
\<close>

theorem round_trip_distinct_names:
  assumes "distinct (renameFirst header)"
    and "''__proto__'' \<notin> set (renameFirst header)"
  shows "query_op (Some (header # rows)) None =
           ([ValuesGet], Inr (map (newItem (renameFirst header)) rows))
         \<and> fields_op (Some (header # rows)) = ([ValuesGet], Inr (renameFirst header))
         \<and> map (convertObjectToRow numToString (renameFirst header))
               (map (newItem (renameFirst header)) rows) =
             map (\<lambda>row. map (\<lambda>j. if j < length row then trim (row ! j) else '''')
                          [0..<length (renameFirst header)]) rows
         \<and> (\<forall>row. length row = length (renameFirst header) \<longrightarrow>
               convertObjectToRow numToString (renameFirst header)
                 (newItem (renameFirst header) row) = map trim row)
         \<and> (\<forall>row j. length row \<le> j \<longrightarrow> j < length (renameFirst header) \<longrightarrow>
               getProp (newItem (renameFirst header) row) (renameFirst header ! j) = JUndefined
               \<and> convertObjectToRow numToString (renameFirst header)
                   (newItem (renameFirst header) row) ! j = '''')"
proof -
  let ?fs = "renameFirst header"
  have full: "convertObjectToRow numToString ?fs (newItem ?fs row) = map trim row"
    if "length row = length ?fs" for row
  proof -
    have "map (\<lambda>j. if j < length row then trim (row ! j) else '''') [0..<length ?fs] =
            map (\<lambda>j. trim (row ! j)) [0..<length row]"
      using that by simp
    also have "\<dots> = map trim (map ((!) row) [0..<length row])" by simp
    also have "\<dots> = map trim row" by (simp only: map_nth)
    finally show ?thesis by (simp add: round_trip_row [OF assms(1)])
  qed
  have short: "getProp (newItem ?fs row) (?fs ! j) = JUndefined
                 \<and> convertObjectToRow numToString ?fs (newItem ?fs row) ! j = ''''"
    if "length row \<le> j" "j < length ?fs" for row j
    using that assms(1) by (simp add: round_trip_row newItem_get cellAt_def)
  show ?thesis
    using full short by (simp add: query_op_all fields_op_header round_trip_row [OF assms(1)])
qed

theorem round_trip_witness:
  "distinct (renameFirst [''Name'', ''Status''])
   \<and> ''__proto__'' \<notin> set (renameFirst [''Name'', ''Status''])
   \<and> renameFirst [''Name'', ''Status''] = [''ID'', ''Status'']
   \<and> query_op (Some [[''Name'', ''Status''], ['' AB12'', ''open ''], [''CD34'']]) None =
       ([ValuesGet], Inr [newItem [''ID'', ''Status''] ['' AB12'', ''open ''],
                          newItem [''ID'', ''Status''] [''CD34'']])
   \<and> map (convertObjectToRow (\<lambda>n. '''') [''ID'', ''Status''])
         [newItem [''ID'', ''Status''] ['' AB12'', ''open ''],
          newItem [''ID'', ''Status''] [''CD34'']] =
       [[''AB12'', ''open''], [''CD34'', '''']]
   \<and> getProp (newItem [''ID'', ''Status''] [''CD34'']) ''Status'' = JUndefined"
proof -
  let ?h = "[''Name'', ''Status'']"
  have r: "renameFirst ?h = [''ID'', ''Status'']" by (simp add: renameFirst_def)
  then have d: "distinct (renameFirst ?h)" by simp
  from r have np: "''__proto__'' \<notin> set (renameFirst ?h)" by simp
  have t: "trim '' AB12'' = ''AB12''" "trim ''open '' = ''open''" "trim ''CD34'' = ''CD34''"
    by code_simp+
  note w = round_trip_distinct_names [OF d np, of "[['' AB12'', ''open ''], [''CD34'']]" "\<lambda>n. ''''"]
  from w have "query_op (Some (?h # [['' AB12'', ''open ''], [''CD34'']])) None =
      ([ValuesGet], Inr (map (newItem (renameFirst ?h)) [['' AB12'', ''open ''], [''CD34'']]))"
    by blast
  moreover from w have "map (convertObjectToRow (\<lambda>n. '''') (renameFirst ?h))
        (map (newItem (renameFirst ?h)) [['' AB12'', ''open ''], [''CD34'']]) =
      map (\<lambda>row. map (\<lambda>j. if j < length row then trim (row ! j) else '''')
                   [0..<length (renameFirst ?h)]) [['' AB12'', ''open ''], [''CD34'']]"
    by blast
  moreover have "getProp (newItem (renameFirst ?h) [''CD34'']) (renameFirst ?h ! 1) = JUndefined"
  proof -
    from w have "\<forall>row j. length row \<le> j \<longrightarrow> j < length (renameFirst ?h) \<longrightarrow>
        getProp (newItem (renameFirst ?h) row) (renameFirst ?h ! j) = JUndefined
        \<and> convertObjectToRow (\<lambda>n. '''') (renameFirst ?h) (newItem (renameFirst ?h) row) ! j = ''''"
      by blast
    then have "length [''CD34''] \<le> 1 \<longrightarrow> 1 < length (renameFirst ?h) \<longrightarrow>
        getProp (newItem (renameFirst ?h) [''CD34'']) (renameFirst ?h ! 1) = JUndefined"
      by blast
    then show ?thesis by (simp add: r)
  qed
  ultimately show ?thesis using r d np t by (simp add: upt_rec)
qed

section \<open>Properties of \<^verbatim>\<open>_update\<close>\<close>

lemma own_keys_of_forIn: "filter (hasOwnProperty values) (forIn values) = map fst (own values)"
proof -
  have "filter (hasOwnProperty values) (map fst (own values)) = map fst (own values)"
    by (simp add: hasOwnProperty_def)
  moreover have "filter (hasOwnProperty values)
      (filter (\<lambda>k. k \<notin> set (map fst (own values))) (map fst (inherited values))) = []"
    by (simp add: hasOwnProperty_def filter_empty_conv)
  ultimately show ?thesis by (simp add: forIn_def)
qed


lemma patchLoop_unknown:
  "filter (\<lambda>p. hasOwnProperty values p \<and> p \<notin> set fields) props = k # ks \<Longrightarrow>
     patchLoop sheetName fields values i props st = Inl (BadField k)"
proof (induction props arbitrary: st)
  case Nil
  then show ?case by simp
next
  case (Cons p props)
  obtain u r w where st: "st = (u, r, w)" by (cases st)
  show ?case
  proof (cases "hasOwnProperty values p")
    case False
    with Cons show ?thesis by (simp add: st)
  next
    case True
    show ?thesis
    proof (cases "p \<in> set fields")
      case False
      with True Cons.prems have "p = k" by simp
      with True False show ?thesis by (simp add: st Let_def indexOf_None_iff [THEN iffD2])
    next
      case inF: True
      then obtain c where ix: "indexOf fields p = Some c"
        using indexOf_None_iff [of fields p] by (cases "indexOf fields p") simp_all
      from inF True Cons.prems
      have "filter (\<lambda>p. hasOwnProperty values p \<and> p \<notin> set fields) props = k # ks" by simp
      from Cons.IH [OF this] True show ?thesis
        by (simp add: st Let_def ix)
    qed
  qed
qed



lemma rowLoop_no_match:
  "\<forall>e \<in> set entries. \<not> dataMatchesQuery (snd e) query \<Longrightarrow>
     rowLoop sheetName fields query values entries st = Inr st"
proof (induction entries)
  case Nil
  then show ?case by simp
next
  case (Cons e entries)
  obtain i r where e: "e = (i, r)" by (cases e)
  obtain w ch where st: "st = (w, ch)" by (cases st)
  from Cons show ?case by (simp add: e st)
qed

lemma rowLoop_unknown:
  assumes bad: "filter (\<lambda>k. k \<notin> set fields) (map fst (own values)) = k # ks"
    and hit: "\<exists>e \<in> set entries. dataMatchesQuery (snd e) query"
  shows "rowLoop sheetName fields query values entries st = Inl (BadField k)"
  using hit
proof (induction entries arbitrary: st)
  case Nil
  then show ?case by simp
next
  case (Cons e entries)
  obtain i r where e: "e = (i, r)" by (cases e)
  obtain w ch where st: "st = (w, ch)" by (cases st)
  have "filter (\<lambda>p. hasOwnProperty values p \<and> p \<notin> set fields) (forIn values) =
          filter (\<lambda>k. k \<notin> set fields) (filter (hasOwnProperty values) (forIn values))"
    by (simp add: conj_commute)
  with bad have first: "filter (\<lambda>p. hasOwnProperty values p \<and> p \<notin> set fields) (forIn values) = k # ks"
    by (simp only: own_keys_of_forIn)
  show ?case
  proof (cases "dataMatchesQuery r query")
    case True
    then show ?thesis by (simp add: e st patchLoop_unknown [OF first])
  next
    case False
    with Cons.prems have "\<exists>e \<in> set entries. dataMatchesQuery (snd e) query" by (simp add: e)
    from Cons.IH [OF this] False show ?thesis by (simp add: e st)
  qed
qed

lemma update_op_no_rows:
  "update_op sheetName (Some [header]) query values = ([ValuesGet], Inr None)"
  by (simp add: update_op_def query_op_all)

lemma update_op_rows:
  "rows \<noteq> [] \<Longrightarrow>
     update_op sheetName (Some (header # rows)) query values =
       (case rowLoop sheetName (renameFirst header) query values
               (enumerate 0 (map (newItem (renameFirst header)) rows)) ([], []) of
          Inl e \<Rightarrow> ([ValuesGet, ValuesGet], Inl e)
        | Inr (updateData, changedItems) \<Rightarrow>
            ([ValuesGet, ValuesGet, ValuesBatchUpdate updateData], Inr (Some changedItems)))"
  by (simp add: update_op_def query_op_all fields_op_header split: sum.splits)








lemma showNat_examples:
  "showNat 0 = ''0''" "showNat 2 = ''2''" "showNat 10 = ''10''" "showNat 11 = ''11''"
  "showNat 1203 = ''1203''"
  by code_simp+




text \<open>
  Claim C4 says that a patch naming a field the field list lacks makes \<^verbatim>\<open>_update\<close> fail.
  The field is looked up inside the loop over the matching records, so a call that reaches
  no matching record raises nothing: on a sheet that holds only its header the guard on
  \<^verbatim>\<open>data.length\<close> returns before any field of the patch is examined.
\<close>

theorem update_unknown_field_counterexample:
  "''Bogus'' \<notin> set (renameFirst [''ID'', ''Status''])
   \<and> update_op ''Sheet1'' (Some [[''ID'', ''Status'']]) (Some (Obj [(''ID'', JStr ''AB12'')] []))
        (Obj [(''Bogus'', JStr ''x'')] []) = ([ValuesGet], Inr None)"
  by (simp add: update_op_no_rows renameFirst_def)

text \<open>
  Claim C4, amended. If at least one record matches the criteria and the patch has an own
  field that the field list lacks, \<^verbatim>\<open>_update\<close> fails with the error \<open>Bad field\<close> naming the
  first such field of the patch, and the only remote calls it has issued are the two reads:
  no write goes out. When no record matches the criteria, in particular on a sheet without
  data rows, the fields of the patch are never looked up: whatever the patch names, no
  error is raised and no cell write is issued.
\<close>

theorem update_unknown_field_aborts:
  "((\<exists>row \<in> set rows. dataMatchesQuery (newItem (renameFirst header) row) query) \<longrightarrow>
      filter (\<lambda>k. k \<notin> set (renameFirst header)) (map fst (own patch)) = k # ks \<longrightarrow>
      update_op sheetName (Some (header # rows)) query patch =
        ([ValuesGet, ValuesGet], Inl (BadField k)))
   \<and> ((\<forall>row \<in> set rows. \<not> dataMatchesQuery (newItem (renameFirst header) row) query) \<longrightarrow>
        update_op sheetName (Some (header # rows)) query patch =
          (if rows = [] then ([ValuesGet], Inr None)
           else ([ValuesGet, ValuesGet, ValuesBatchUpdate []], Inr (Some []))))"
proof (intro conjI impI)
  assume hit: "\<exists>row \<in> set rows. dataMatchesQuery (newItem (renameFirst header) row) query"
    and bad: "filter (\<lambda>k. k \<notin> set (renameFirst header)) (map fst (own patch)) = k # ks"
  from hit have rows: "rows \<noteq> []" by auto
  let ?entries = "enumerate 0 (map (newItem (renameFirst header)) rows)"
  have "set (map snd ?entries) = set (map (newItem (renameFirst header)) rows)"
    by (simp only: map_snd_enumerate)
  with hit have "\<exists>e \<in> set ?entries. dataMatchesQuery (snd e) query"
    by (metis (no_types, lifting) image_iff list.set_map)
  from rowLoop_unknown [OF bad this]
  show "update_op sheetName (Some (header # rows)) query patch =
          ([ValuesGet, ValuesGet], Inl (BadField k))"
    by (simp add: update_op_rows [OF rows])
next
  assume miss: "\<forall>row \<in> set rows. \<not> dataMatchesQuery (newItem (renameFirst header) row) query"
  show "update_op sheetName (Some (header # rows)) query patch =
          (if rows = [] then ([ValuesGet], Inr None)
           else ([ValuesGet, ValuesGet, ValuesBatchUpdate []], Inr (Some [])))"
  proof (cases "rows = []")
    case True
    then show ?thesis by (simp add: update_op_no_rows)
  next
    case False
    let ?entries = "enumerate 0 (map (newItem (renameFirst header)) rows)"
    have "set (map snd ?entries) = set (map (newItem (renameFirst header)) rows)"
      by (simp only: map_snd_enumerate)
    with miss have "\<forall>e \<in> set ?entries. \<not> dataMatchesQuery (snd e) query"
      by (metis (no_types, lifting) image_iff list.set_map)
    from rowLoop_no_match [OF this] False show ?thesis
      by (simp add: update_op_rows [OF False])
  qed
qed

theorem update_unknown_field_witness:
  "dataMatchesQuery (newItem (renameFirst [''ID'', ''Status'']) [''AB12'', ''open''])
     (Some (Obj [(''ID'', JStr ''AB12'')] []))
   \<and> filter (\<lambda>k. k \<notin> set (renameFirst [''ID'', ''Status'']))
        (map fst (own (Obj [(''Status'', JStr ''y''), (''Bogus'', JStr ''x'')] []))) = [''Bogus'']
   \<and> update_op ''Sheet1'' (Some [[''ID'', ''Status''], [''AB12'', ''open'']])
        (Some (Obj [(''ID'', JStr ''AB12'')] []))
        (Obj [(''Status'', JStr ''y''), (''Bogus'', JStr ''x'')] []) =
       ([ValuesGet, ValuesGet], Inl (BadField ''Bogus''))
   \<and> \<not> dataMatchesQuery (newItem (renameFirst [''ID'', ''Status'']) [''AB12'', ''open''])
         (Some (Obj [(''ID'', JStr ''ZZ99'')] []))
   \<and> update_op ''Sheet1'' (Some [[''ID'', ''Status''], [''AB12'', ''open'']])
        (Some (Obj [(''ID'', JStr ''ZZ99'')] []))
        (Obj [(''Status'', JStr ''y''), (''Bogus'', JStr ''x'')] []) =
       ([ValuesGet, ValuesGet, ValuesBatchUpdate []], Inr (Some []))
   \<and> update_op ''Sheet1'' (Some [[''ID'', ''Status'']])
        (Some (Obj [(''ID'', JStr ''ZZ99'')] []))
        (Obj [(''Status'', JStr ''y''), (''Bogus'', JStr ''x'')] []) =
       ([ValuesGet], Inr None)"
proof -
  let ?header = "[''ID'', ''Status'']"
  let ?query = "Some (Obj [(''ID'', JStr ''AB12'')] [])"
  let ?other = "Some (Obj [(''ID'', JStr ''ZZ99'')] [])"
  let ?patch = "Obj [(''Status'', JStr ''y''), (''Bogus'', JStr ''x'')] []"
  have m: "dataMatchesQuery (newItem (renameFirst ?header) [''AB12'', ''open'']) ?query"
    by code_simp
  then have hit: "\<exists>row \<in> set [[''AB12'', ''open'']].
      dataMatchesQuery (newItem (renameFirst ?header) row) ?query"
    by simp
  have bad: "filter (\<lambda>k. k \<notin> set (renameFirst ?header)) (map fst (own ?patch)) = ''Bogus'' # []"
    by (simp add: renameFirst_def)
  have n: "\<not> dataMatchesQuery (newItem (renameFirst ?header) [''AB12'', ''open'']) ?other"
    by code_simp
  then have miss: "\<forall>row \<in> set [[''AB12'', ''open'']].
      \<not> dataMatchesQuery (newItem (renameFirst ?header) row) ?other"
    by simp
  have miss0: "\<forall>row \<in> set ([] :: string list list).
      \<not> dataMatchesQuery (newItem (renameFirst ?header) row) ?other"
    by simp
  have r1: "update_op ''Sheet1'' (Some (?header # [[''AB12'', ''open'']])) ?query ?patch =
      ([ValuesGet, ValuesGet], Inl (BadField ''Bogus''))"
    using update_unknown_field_aborts
      [where rows = "[[''AB12'', ''open'']]" and header = ?header and query = ?query
         and patch = ?patch and k = "''Bogus''" and ks = "[]" and sheetName = "''Sheet1''",
       THEN conjunct1, THEN mp, THEN mp, OF hit bad] .
  have r2: "update_op ''Sheet1'' (Some (?header # [[''AB12'', ''open'']])) ?other ?patch =
      ([ValuesGet, ValuesGet, ValuesBatchUpdate []], Inr (Some []))"
    using update_unknown_field_aborts
      [where rows = "[[''AB12'', ''open'']]" and header = ?header and query = ?other
         and patch = ?patch and sheetName = "''Sheet1''",
       THEN conjunct2, THEN mp, OF miss] by simp
  have r3: "update_op ''Sheet1'' (Some (?header # [])) ?other ?patch = ([ValuesGet], Inr None)"
    using update_unknown_field_aborts
      [where rows = "[]" and header = ?header and query = ?other
         and patch = ?patch and sheetName = "''Sheet1''",
       THEN conjunct2, THEN mp, OF miss0] by simp
  from m bad n r1 r2 r3 show ?thesis by (intro conjI) simp_all
qed

text \<open>
  Claim C1 (the code departs from it). The guard of \<^verbatim>\<open>_update\<close> tests the length of
  \<^verbatim>\<open>_query()\<close>, all the records of the sheet, not the records matching the criteria. With
  one record in the sheet and criteria that match none, the call goes on: it reads the
  field list, issues a \<^verbatim>\<open>batchUpdate\<close> with no cell write and returns an empty array.
\<close>

theorem update_zero_matches_evaluation:
  "update_op ''Sheet1'' (Some [[''ID'', ''Status''], [''AB12'', ''open'']])
     (Some (Obj [(''ID'', JStr ''none'')] [])) (Obj [(''Status'', JStr ''x'')] []) =
     ([ValuesGet, ValuesGet, ValuesBatchUpdate []], Inr (Some []))
   \<and> \<not> dataMatchesQuery (newItem (renameFirst [''ID'', ''Status'']) [''AB12'', ''open''])
         (Some (Obj [(''ID'', JStr ''none'')] []))"
  by code_simp

section \<open>Properties of \<^verbatim>\<open>_insert\<close>\<close>

lemma hex_digit_upper:
  "d < 16 \<Longrightarrow> list_all upperHexChar (toUpperCase [hexDigit d])"
  by (simp add: toUpperCase_def hexDigit_def upperHexChar_def Let_def)

lemma toUpperCase_append: "toUpperCase (s @ t) = toUpperCase s @ toUpperCase t"
  by (simp add: toUpperCase_def)

lemma byte_hex_upper:
  "list_all upperHexChar
     (toUpperCase [hexDigit (unat (b :: 8 word) div 16), hexDigit (unat b mod 16)])"
proof -
  have "unat b < 256" using unsigned_less [of b, where ?'a = nat] by simp
  then have hi: "unat b div 16 < 16" by simp
  have lo: "unat b mod 16 < 16" by simp
  have "toUpperCase [hexDigit (unat b div 16), hexDigit (unat b mod 16)] =
          toUpperCase [hexDigit (unat b div 16)] @ toUpperCase [hexDigit (unat b mod 16)]"
    using toUpperCase_append [of "[hexDigit (unat b div 16)]" "[hexDigit (unat b mod 16)]"]
    by simp
  with hex_digit_upper [OF hi] hex_digit_upper [OF lo] show ?thesis
    by (simp only: list_all_append)
qed

lemma proposeId_shape:
  "length (proposeId w) = 8 \<and> list_all upperHexChar (proposeId w)"
proof -
  obtain b3 b2 b1 b0 where b: "randomBytes4 w = [b3, b2, b1, b0]"
    by (simp add: randomBytes4_def)
  have e: "proposeId w =
      toUpperCase [hexDigit (unat b3 div 16), hexDigit (unat b3 mod 16)]
      @ toUpperCase [hexDigit (unat b2 div 16), hexDigit (unat b2 mod 16)]
      @ toUpperCase [hexDigit (unat b1 div 16), hexDigit (unat b1 mod 16)]
      @ toUpperCase [hexDigit (unat b0 div 16), hexDigit (unat b0 mod 16)]"
    by (simp add: proposeId_def b toHex_def toUpperCase_def)
  have l: "length (proposeId w) = 8"
    by (simp add: proposeId_def b toHex_def toUpperCase_def)
  have "list_all upperHexChar (proposeId w)"
    using byte_hex_upper [of b3] byte_hex_upper [of b2] byte_hex_upper [of b1] byte_hex_upper [of b0]
    by (simp only: e list_all_append)
  with l show ?thesis by simp
qed

lemma strictEq_JStr: "strictEq v (JStr p) \<longleftrightarrow> v = JStr p"
  by (auto simp: strictEq_def)

lemma generateId_Some:
  "generateId h data draws = Some (p, rest) \<Longrightarrow>
     \<exists>pre w. draws = pre @ w # rest \<and> p = proposeId w
       \<and> (\<forall>u \<in> set pre. \<exists>x \<in> set data. getProp (deref h x) ''ID'' = JStr (proposeId u))
       \<and> (\<forall>x \<in> set data. getProp (deref h x) ''ID'' \<noteq> JStr p)"
proof (induction draws)
  case Nil
  then show ?case by simp
next
  case (Cons w ws)
  show ?case
  proof (cases "\<exists>x \<in> set data. getProp (deref h x) ''ID'' = JStr (proposeId w)")
    case True
    with Cons.prems have "generateId h data ws = Some (p, rest)"
      by (simp add: Let_def list_ex_iff strictEq_JStr)
    from Cons.IH [OF this] obtain pre w' where
      "ws = pre @ w' # rest" "p = proposeId w'"
      "\<forall>u \<in> set pre. \<exists>x \<in> set data. getProp (deref h x) ''ID'' = JStr (proposeId u)"
      "\<forall>x \<in> set data. getProp (deref h x) ''ID'' \<noteq> JStr p"
      by blast
    with True have "w # ws = (w # pre) @ w' # rest \<and> p = proposeId w'
       \<and> (\<forall>u \<in> set (w # pre). \<exists>x \<in> set data. getProp (deref h x) ''ID'' = JStr (proposeId u))
       \<and> (\<forall>x \<in> set data. getProp (deref h x) ''ID'' \<noteq> JStr p)"
      by simp
    then show ?thesis by blast
  next
    case False
    with Cons.prems have "p = proposeId w" "rest = ws"
      by (simp_all add: Let_def list_ex_iff strictEq_JStr)
    with False have "w # ws = [] @ w # rest \<and> p = proposeId w
       \<and> (\<forall>u \<in> set []. \<exists>x \<in> set data. getProp (deref h x) ''ID'' = JStr (proposeId u))
       \<and> (\<forall>x \<in> set data. getProp (deref h x) ''ID'' \<noteq> JStr p)"
      by simp
    then show ?thesis by blast
  qed
qed

lemma generateId_total:
  "\<exists>w \<in> set draws. \<forall>x \<in> set data. getProp (deref h x) ''ID'' \<noteq> JStr (proposeId w) \<Longrightarrow>
     \<exists>p rest. generateId h data draws = Some (p, rest)"
  by (induction draws) (auto simp: Let_def list_ex_iff strictEq_JStr)

lemma insertLoop_has_id:
  "getProp (h a) ''ID'' \<noteq> JUndefined \<Longrightarrow>
     insertLoop numToString fields (a # more) (h, data, newRows, draws) =
       insertLoop numToString fields more
         (h, data @ [Given a], newRows @ [convertObjectToRow numToString fields (h a)], draws)"
  by simp

lemma insertLoop_lacks_id:
  "getProp (h a) ''ID'' = JUndefined \<Longrightarrow> generateId h data draws = Some (p, rest) \<Longrightarrow>
     insertLoop numToString fields (a # more) (h, data, newRows, draws) =
       insertLoop numToString fields more
         (h(a := setProp (h a) ''ID'' (JStr p)), data @ [Given a],
          newRows @ [convertObjectToRow numToString fields (setProp (h a) ''ID'' (JStr p))], rest)"
  by simp

lemma insertLoop_stuck:
  "getProp (h a) ''ID'' = JUndefined \<Longrightarrow> generateId h data draws = None \<Longrightarrow>
     insertLoop numToString fields (a # more) (h, data, newRows, draws) = None"
  by simp

lemma insertLoop_frame:
  "insertLoop numToString fields refs (h, data, newRows, draws) = Some (h', data', newRows', draws')
     \<Longrightarrow> \<not> (a \<in> set refs \<and> getProp (h a) ''ID'' = JUndefined) \<Longrightarrow> h' a = h a"
proof (induction refs arbitrary: h data newRows draws)
  case Nil
  then show ?case by simp
next
  case (Cons r more)
  show ?case
  proof (cases "getProp (h r) ''ID'' = JUndefined")
    case False
    from Cons.prems(1) have "insertLoop numToString fields more
         (h, data @ [Given r], newRows @ [convertObjectToRow numToString fields (h r)], draws)
       = Some (h', data', newRows', draws')"
      by (simp only: insertLoop_has_id [where h = h and a = r, OF False])
    from Cons.IH [OF this] Cons.prems(2) show ?thesis by auto
  next
    case True
    show ?thesis
    proof (cases "generateId h data draws")
      case None
      with Cons.prems(1) True show ?thesis
        by (simp only: insertLoop_stuck [where h = h and a = r]) simp
    next
      case (Some pr)
      obtain p rest where pr: "pr = (p, rest)" by (cases pr)
      let ?h1 = "h(r := setProp (h r) ''ID'' (JStr p))"
      from Cons.prems(1) have run: "insertLoop numToString fields more
         (?h1, data @ [Given r],
          newRows @ [convertObjectToRow numToString fields (setProp (h r) ''ID'' (JStr p))], rest)
       = Some (h', data', newRows', draws')"
        by (simp only: insertLoop_lacks_id [where h = h and a = r, OF True Some [unfolded pr]])
      from Cons.prems(2) True have ne: "a \<noteq> r" by auto
      with Cons.prems(2) have "\<not> (a \<in> set more \<and> getProp (?h1 a) ''ID'' = JUndefined)" by simp
      from Cons.IH [OF run this] ne show ?thesis by simp
    qed
  qed
qed

lemma getProp_ID_set: "getProp (setProp obj ''ID'' (JStr p)) ''ID'' = JStr p"
  by (simp add: getProp_setProp)

lemma insertLoop_assigned:
  "insertLoop numToString fields refs (h, data, newRows, draws) = Some (h', data', newRows', draws')
     \<Longrightarrow> a \<in> set refs \<Longrightarrow> getProp (h a) ''ID'' = JUndefined
     \<Longrightarrow> \<exists>w \<in> set draws. h' a = setProp (h a) ''ID'' (JStr (proposeId w))"
proof (induction refs arbitrary: h data newRows draws)
  case Nil
  then show ?case by simp
next
  case (Cons r more)
  show ?case
  proof (cases "getProp (h r) ''ID'' = JUndefined")
    case False
    from Cons.prems(1) have run: "insertLoop numToString fields more
         (h, data @ [Given r], newRows @ [convertObjectToRow numToString fields (h r)], draws)
       = Some (h', data', newRows', draws')"
      by (simp only: insertLoop_has_id [where h = h and a = r, OF False])
    from False Cons.prems(2,3) have "a \<in> set more" by auto
    from Cons.IH [OF run this Cons.prems(3)] show ?thesis .
  next
    case True
    show ?thesis
    proof (cases "generateId h data draws")
      case None
      with Cons.prems(1) True show ?thesis
        by (simp only: insertLoop_stuck [where h = h and a = r]) simp
    next
      case (Some pr)
      obtain p rest where pr: "pr = (p, rest)" by (cases pr)
      let ?h1 = "h(r := setProp (h r) ''ID'' (JStr p))"
      from Cons.prems(1) have run: "insertLoop numToString fields more
         (?h1, data @ [Given r],
          newRows @ [convertObjectToRow numToString fields (setProp (h r) ''ID'' (JStr p))], rest)
       = Some (h', data', newRows', draws')"
        by (simp only: insertLoop_lacks_id [where h = h and a = r, OF True Some [unfolded pr]])
      from generateId_Some [OF Some [unfolded pr]] obtain pre w where
        dr: "draws = pre @ w # rest" "p = proposeId w" by blast
      show ?thesis
      proof (cases "a = r")
        case True
        have "\<not> (r \<in> set more \<and> getProp (?h1 r) ''ID'' = JUndefined)"
          by (simp add: getProp_ID_set)
        from insertLoop_frame [OF run this] have "h' r = setProp (h r) ''ID'' (JStr p)" by simp
        with True dr show ?thesis by auto
      next
        case False
        with Cons.prems(2) have m: "a \<in> set more" by simp
        from False Cons.prems(3) have "getProp (?h1 a) ''ID'' = JUndefined" by simp
        from Cons.IH [OF run m this] False dr show ?thesis by auto
      qed
    qed
  qed
qed

lemma insertLoop_rows:
  "insertLoop numToString fields refs (h, data, newRows, draws) = Some (h', data', newRows', draws')
     \<Longrightarrow> newRows' = newRows @ map (\<lambda>a. convertObjectToRow numToString fields (h' a)) refs"
proof (induction refs arbitrary: h data newRows draws)
  case Nil
  then show ?case by simp
next
  case (Cons r more)
  show ?case
  proof (cases "getProp (h r) ''ID'' = JUndefined")
    case False
    from Cons.prems(1) have run: "insertLoop numToString fields more
         (h, data @ [Given r], newRows @ [convertObjectToRow numToString fields (h r)], draws)
       = Some (h', data', newRows', draws')"
      by (simp only: insertLoop_has_id [where h = h and a = r, OF False])
    from False have "\<not> (r \<in> set more \<and> getProp (h r) ''ID'' = JUndefined)" by simp
    from insertLoop_frame [OF run this] Cons.IH [OF run] show ?thesis by simp
  next
    case True
    show ?thesis
    proof (cases "generateId h data draws")
      case None
      with Cons.prems(1) True show ?thesis
        by (simp only: insertLoop_stuck [where h = h and a = r]) simp
    next
      case (Some pr)
      obtain p rest where pr: "pr = (p, rest)" by (cases pr)
      let ?h1 = "h(r := setProp (h r) ''ID'' (JStr p))"
      from Cons.prems(1) have run: "insertLoop numToString fields more
         (?h1, data @ [Given r],
          newRows @ [convertObjectToRow numToString fields (setProp (h r) ''ID'' (JStr p))], rest)
       = Some (h', data', newRows', draws')"
        by (simp only: insertLoop_lacks_id [where h = h and a = r, OF True Some [unfolded pr]])
      have "\<not> (r \<in> set more \<and> getProp (?h1 r) ''ID'' = JUndefined)"
        by (simp add: getProp_ID_set)
      from insertLoop_frame [OF run this] have "h' r = setProp (h r) ''ID'' (JStr p)" by simp
      with Cons.IH [OF run] show ?thesis by simp
    qed
  qed
qed

lemma insertLoop_fresh:
  "insertLoop numToString fields refs (h, data, newRows, draws) = Some (h', data', newRows', draws')
     \<Longrightarrow> refs = pre @ a # post \<Longrightarrow> a \<notin> set pre \<Longrightarrow> getProp (h a) ''ID'' = JUndefined
     \<Longrightarrow> (\<forall>x \<in> set data. getProp (deref h x) ''ID'' \<noteq> getProp (h' a) ''ID'')
         \<and> (\<forall>b \<in> set pre. getProp (h' b) ''ID'' \<noteq> getProp (h' a) ''ID'')"
proof (induction refs arbitrary: h data newRows draws pre)
  case Nil
  then show ?case by simp
next
  case (Cons r more)
  show ?case
  proof (cases pre)
    case Nil
    with Cons.prems(2) have ra: "r = a" "more = post" by simp_all
    from Cons.prems(4) ra have lacks: "getProp (h r) ''ID'' = JUndefined" by simp
    show ?thesis
    proof (cases "generateId h data draws")
      case None
      with Cons.prems(1) lacks show ?thesis
        by (simp only: insertLoop_stuck [where h = h and a = r]) simp
    next
      case (Some pr)
      obtain p rest where pr: "pr = (p, rest)" by (cases pr)
      let ?h1 = "h(r := setProp (h r) ''ID'' (JStr p))"
      from Cons.prems(1) have run: "insertLoop numToString fields more
         (?h1, data @ [Given r],
          newRows @ [convertObjectToRow numToString fields (setProp (h r) ''ID'' (JStr p))], rest)
       = Some (h', data', newRows', draws')"
        by (simp only: insertLoop_lacks_id [where h = h and a = r, OF lacks Some [unfolded pr]])
      have "\<not> (r \<in> set more \<and> getProp (?h1 r) ''ID'' = JUndefined)"
        by (simp add: getProp_ID_set)
      from insertLoop_frame [OF run this] have "getProp (h' r) ''ID'' = JStr p"
        by (simp add: getProp_ID_set)
      moreover from generateId_Some [OF Some [unfolded pr]]
      have "\<forall>x \<in> set data. getProp (deref h x) ''ID'' \<noteq> JStr p" by blast
      ultimately show ?thesis using Nil ra by simp
    qed
  next
    case (Cons r' pre')
    with Cons.prems(2,3) have split: "r' = r" "more = pre' @ a # post" "a \<noteq> r" "a \<notin> set pre'"
      by auto
    obtain h1 data1 rows1 draws1 where
      run: "insertLoop numToString fields more (h1, data1, rows1, draws1)
              = Some (h', data', newRows', draws')"
      and h1a: "h1 a = h a"
      and d1: "data1 = data @ [Given r]"
      and h1r: "getProp (h1 r) ''ID'' \<noteq> JUndefined"
      and old: "\<forall>x \<in> set data. getProp (deref h x) ''ID'' = JUndefined
                   \<or> getProp (deref h1 x) ''ID'' = getProp (deref h x) ''ID''"
    proof (cases "getProp (h r) ''ID'' = JUndefined")
      case False
      from Cons.prems(1) have "insertLoop numToString fields more
         (h, data @ [Given r], newRows @ [convertObjectToRow numToString fields (h r)], draws)
       = Some (h', data', newRows', draws')"
        by (simp only: insertLoop_has_id [where h = h and a = r, OF False])
      with False that show ?thesis by blast
    next
      case True
      show ?thesis
      proof (cases "generateId h data draws")
        case None
        with Cons.prems(1) True show ?thesis
          by (simp only: insertLoop_stuck [where h = h and a = r]) simp
      next
        case (Some pr)
        obtain p rest where pr: "pr = (p, rest)" by (cases pr)
        let ?h1 = "h(r := setProp (h r) ''ID'' (JStr p))"
        from Cons.prems(1) have r1: "insertLoop numToString fields more
           (?h1, data @ [Given r],
            newRows @ [convertObjectToRow numToString fields (setProp (h r) ''ID'' (JStr p))], rest)
         = Some (h', data', newRows', draws')"
          by (simp only: insertLoop_lacks_id [where h = h and a = r, OF True Some [unfolded pr]])
        have o: "\<forall>x \<in> set data. getProp (deref h x) ''ID'' = JUndefined
                   \<or> getProp (deref ?h1 x) ''ID'' = getProp (deref h x) ''ID''"
        proof
          fix x assume "x \<in> set data"
          show "getProp (deref h x) ''ID'' = JUndefined
                   \<or> getProp (deref ?h1 x) ''ID'' = getProp (deref h x) ''ID''"
            using True by (cases x) auto
        qed
        from split(3) have "?h1 a = h a" by simp
        moreover have "getProp (?h1 r) ''ID'' \<noteq> JUndefined" by (simp add: getProp_ID_set)
        ultimately show ?thesis using that [OF r1 _ refl _ o] by blast
      qed
    qed
    from Cons.prems(4) h1a have lacks1: "getProp (h1 a) ''ID'' = JUndefined" by simp
    from Cons.IH [OF run split(2) split(4) lacks1]
    have ih: "\<forall>x \<in> set data1. getProp (deref h1 x) ''ID'' \<noteq> getProp (h' a) ''ID''"
      "\<forall>b \<in> set pre'. getProp (h' b) ''ID'' \<noteq> getProp (h' a) ''ID''"
      by blast+
    from insertLoop_assigned [OF run _ lacks1] split(2)
    obtain w where ida: "getProp (h' a) ''ID'' = JStr (proposeId w)"
      by (auto simp: getProp_ID_set)
    have "\<not> (r \<in> set more \<and> getProp (h1 r) ''ID'' = JUndefined)" using h1r by simp
    from insertLoop_frame [OF run this] have "h' r = h1 r" .
    moreover from ih(1) d1 have "getProp (h1 r) ''ID'' \<noteq> getProp (h' a) ''ID''" by simp
    ultimately have rr: "getProp (h' r) ''ID'' \<noteq> getProp (h' a) ''ID''" by simp
    have "\<forall>x \<in> set data. getProp (deref h x) ''ID'' \<noteq> getProp (h' a) ''ID''"
    proof
      fix x assume x: "x \<in> set data"
      with old have "getProp (deref h x) ''ID'' = JUndefined
                   \<or> getProp (deref h1 x) ''ID'' = getProp (deref h x) ''ID''" by blast
      moreover from ih(1) d1 x have "getProp (deref h1 x) ''ID'' \<noteq> getProp (h' a) ''ID''" by simp
      ultimately show "getProp (deref h x) ''ID'' \<noteq> getProp (h' a) ''ID''"
        using ida by auto
    qed
    with ih(2) rr Cons split(1) show ?thesis by simp
  qed
qed

lemma set_unusedIds:
  "set (unusedIds h known draws) =
     {p \<in> proposeId ` set draws. \<forall>x \<in> set known. getProp (deref h x) ''ID'' \<noteq> JStr p}"
  by (auto simp: unusedIds_def list_ex_iff)

lemma length_unusedIds: "length (unusedIds h known draws) = card (set (unusedIds h known draws))"
  by (simp add: unusedIds_def length_remdups_card_conv)

lemma length_filter_mono:
  "(\<And>x. x \<in> set xs \<Longrightarrow> P x \<Longrightarrow> Q x) \<Longrightarrow> length (filter P xs) \<le> length (filter Q xs)"
proof (induction xs)
  case Nil
  then show ?case by simp
next
  case (Cons x xs)
  then have "length (filter P xs) \<le> length (filter Q xs)" by simp
  with Cons.prems [of x] show ?case by auto
qed

lemma insertLoop_returns:
  "length (filter (\<lambda>a. getProp (h a) ''ID'' = JUndefined) refs)
       \<le> length (unusedIds h (data @ map Given refs) draws)
     \<Longrightarrow> \<exists>st. insertLoop numToString fields refs (h, data, newRows, draws) = Some st"
proof (induction refs arbitrary: h data newRows draws)
  case Nil
  then show ?case by simp
next
  case (Cons r more)
  show ?case
  proof (cases "getProp (h r) ''ID'' = JUndefined")
    case False
    from Cons.prems False
    have "length (filter (\<lambda>a. getProp (h a) ''ID'' = JUndefined) more)
            \<le> length (unusedIds h ((data @ [Given r]) @ map Given more) draws)"
      by simp
    from Cons.IH [OF this] show ?thesis
      by (simp only: insertLoop_has_id [where h = h and a = r, OF False])
  next
    case True
    let ?known = "data @ map Given (r # more)"
    let ?U = "set (unusedIds h ?known draws)"
    from Cons.prems True
    have cnt: "Suc (length (filter (\<lambda>a. getProp (h a) ''ID'' = JUndefined) more)) \<le> card ?U"
      by (simp add: length_unusedIds)
    then have "?U \<noteq> {}" by auto
    then have "\<exists>q. q \<in> ?U" by (simp add: ex_in_conv)
    then obtain q where "q \<in> ?U" ..
    then have "\<exists>w \<in> set draws. \<forall>x \<in> set data. getProp (deref h x) ''ID'' \<noteq> JStr (proposeId w)"
      by (auto simp: set_unusedIds)
    from generateId_total [OF this] obtain p rest where
      gen: "generateId h data draws = Some (p, rest)" by blast
    from generateId_Some [OF gen] obtain pre w0 where
      dr: "draws = pre @ w0 # rest" and p: "p = proposeId w0"
      and coll: "\<forall>u \<in> set pre. \<exists>x \<in> set data. getProp (deref h x) ''ID'' = JStr (proposeId u)"
      by blast
    let ?h1 = "h(r := setProp (h r) ''ID'' (JStr p))"
    let ?U1 = "set (unusedIds ?h1 ((data @ [Given r]) @ map Given more) rest)"
    have sub: "?U - {p} \<subseteq> ?U1"
    proof
      fix q assume q: "q \<in> ?U - {p}"
      then obtain w where w: "w \<in> set draws" "q = proposeId w"
        and free: "\<forall>x \<in> set ?known. getProp (deref h x) ''ID'' \<noteq> JStr q"
        by (auto simp: set_unusedIds)
      from q have qp: "q \<noteq> p" by simp
      have "w \<notin> set pre"
      proof
        assume "w \<in> set pre"
        with coll obtain x where "x \<in> set data" "getProp (deref h x) ''ID'' = JStr (proposeId w)"
          by blast
        with free w(2) show False by auto
      qed
      with w qp p dr have inrest: "w \<in> set rest" by auto
      have "\<forall>x \<in> set ((data @ [Given r]) @ map Given more). getProp (deref ?h1 x) ''ID'' \<noteq> JStr q"
      proof
        fix x assume x: "x \<in> set ((data @ [Given r]) @ map Given more)"
        then have xk: "x \<in> set ?known" by simp
        show "getProp (deref ?h1 x) ''ID'' \<noteq> JStr q"
        proof (cases "x = Given r")
          case True
          with qp show ?thesis by (simp add: getProp_ID_set)
        next
          case False
          then have "deref ?h1 x = deref h x" by (cases x) auto
          moreover from free xk have "getProp (deref h x) ''ID'' \<noteq> JStr q" by blast
          ultimately show ?thesis by simp
        qed
      qed
      with inrest w(2) show "q \<in> ?U1" by (auto simp: set_unusedIds)
    qed
    have "card ?U - 1 \<le> card (?U - {p})" by (simp add: card_Diff_singleton_if)
    also have "\<dots> \<le> card ?U1" using sub by (simp add: card_mono)
    finally have big: "card ?U - 1 \<le> card ?U1" .
    have "length (filter (\<lambda>a. getProp (?h1 a) ''ID'' = JUndefined) more)
            \<le> length (filter (\<lambda>a. getProp (h a) ''ID'' = JUndefined) more)"
      by (rule length_filter_mono) (auto simp: getProp_ID_set split: if_splits)
    with cnt big
    have "length (filter (\<lambda>a. getProp (?h1 a) ''ID'' = JUndefined) more)
            \<le> length (unusedIds ?h1 ((data @ [Given r]) @ map Given more) rest)"
      by (simp add: length_unusedIds)
    from Cons.IH [OF this] show ?thesis
      by (simp only: insertLoop_lacks_id [where h = h and a = r, OF True gen])
  qed
qed

lemma insert_op_loop:
  "insert_op numToString (Some (header # rows)) newData h draws =
     (case insertLoop numToString (renameFirst header)
             (case newData of Single a \<Rightarrow> [a] | Many as \<Rightarrow> as)
             (h, map Fetched (map (newItem (renameFirst header)) rows), [], draws) of
        None \<Rightarrow> None
      | Some (h', data', newRows, draws') \<Rightarrow>
          Some ([ValuesGet, ValuesGet, ValuesAppend newRows],
                Inr (case newData of Single a \<Rightarrow> [a] | Many as \<Rightarrow> as, h')))"
  by (simp add: insert_op_def query_op_all fields_op_header Let_def split: option.splits)

lemma insert_op_result:
  assumes run: "insert_op numToString (Some (header # rows)) newData h draws = Some (calls, outcome)"
  shows "\<exists>h'.
      outcome = Inr (case newData of Single a \<Rightarrow> [a] | Many as \<Rightarrow> as, h')
    \<and> calls = [ValuesGet, ValuesGet,
              ValuesAppend (map (\<lambda>a. convertObjectToRow numToString (renameFirst header) (h' a))
                              (case newData of Single a \<Rightarrow> [a] | Many as \<Rightarrow> as))]
    \<and> (\<forall>a. a \<in> set (case newData of Single a \<Rightarrow> [a] | Many as \<Rightarrow> as) \<longrightarrow>
        getProp (h a) ''ID'' = JUndefined \<longrightarrow>
        (\<exists>w \<in> set draws. h' a = setProp (h a) ''ID'' (JStr (proposeId w))))
    \<and> (\<forall>a. \<not> (a \<in> set (case newData of Single a \<Rightarrow> [a] | Many as \<Rightarrow> as)
              \<and> getProp (h a) ''ID'' = JUndefined) \<longrightarrow> h' a = h a)
    \<and> (\<forall>pre a post. (case newData of Single a \<Rightarrow> [a] | Many as \<Rightarrow> as) = pre @ a # post \<longrightarrow>
        a \<notin> set pre \<longrightarrow> getProp (h a) ''ID'' = JUndefined \<longrightarrow>
        (\<forall>r \<in> set (map (newItem (renameFirst header)) rows).
            getProp r ''ID'' \<noteq> getProp (h' a) ''ID'')
        \<and> (\<forall>b \<in> set pre. getProp (h' b) ''ID'' \<noteq> getProp (h' a) ''ID''))"
proof -
  let ?refs = "case newData of Single a \<Rightarrow> [a] | Many as \<Rightarrow> as"
  let ?data = "map Fetched (map (newItem (renameFirst header)) rows)"
  from run obtain h' data' newRows draws' where
    loop: "insertLoop numToString (renameFirst header) ?refs (h, ?data, [], draws)
             = Some (h', data', newRows, draws')"
    and out: "outcome = Inr (?refs, h')"
    and cs: "calls = [ValuesGet, ValuesGet, ValuesAppend newRows]"
    by (auto simp: insert_op_loop split: option.splits)
  have rws: "newRows = map (\<lambda>a. convertObjectToRow numToString (renameFirst header) (h' a)) ?refs"
    using insertLoop_rows [OF loop] by simp
  have asg: "\<forall>a. a \<in> set ?refs \<longrightarrow> getProp (h a) ''ID'' = JUndefined \<longrightarrow>
        (\<exists>w \<in> set draws. h' a = setProp (h a) ''ID'' (JStr (proposeId w)))"
    using insertLoop_assigned [OF loop] by blast
  have frame: "\<forall>a. \<not> (a \<in> set ?refs \<and> getProp (h a) ''ID'' = JUndefined) \<longrightarrow> h' a = h a"
    using insertLoop_frame [OF loop] by blast
  have fresh: "\<forall>pre a post. ?refs = pre @ a # post \<longrightarrow>
        a \<notin> set pre \<longrightarrow> getProp (h a) ''ID'' = JUndefined \<longrightarrow>
        (\<forall>r \<in> set (map (newItem (renameFirst header)) rows).
            getProp r ''ID'' \<noteq> getProp (h' a) ''ID'')
        \<and> (\<forall>b \<in> set pre. getProp (h' b) ''ID'' \<noteq> getProp (h' a) ''ID'')"
  proof (intro allI impI)
    fix pre a post
    assume "?refs = pre @ a # post" "a \<notin> set pre" "getProp (h a) ''ID'' = JUndefined"
    from insertLoop_fresh [OF loop this]
    show "(\<forall>r \<in> set (map (newItem (renameFirst header)) rows).
            getProp r ''ID'' \<noteq> getProp (h' a) ''ID'')
        \<and> (\<forall>b \<in> set pre. getProp (h' b) ''ID'' \<noteq> getProp (h' a) ''ID'')"
      by simp
  qed
  from out cs rws asg frame fresh show ?thesis by (intro exI [of _ h'] conjI) simp_all
qed

text \<open>
  Claim C5. \<^verbatim>\<open>_insert\<close> takes one record or an array of records. Whenever it returns, it
  has read the range twice and issued exactly one \<^verbatim>\<open>append\<close>, whose rows are the converted
  records in input order; it returns the input records. Every input record without an
  identifier (its \<open>ID\<close> reads \<^verbatim>\<open>undefined\<close>) has received one: eight upper-case
  hexadecimal characters made from a draw,
  different from the identifier of every record of the sheet and of every record earlier in
  the batch (the record is taken where it first occurs in the batch). Records that had an
  identifier are unchanged. It returns whenever the draws offer at least as many distinct
  identifiers, unused in the sheet and in the batch, as the batch has records without one.
\<close>

theorem insert_assigns_fresh_ids_and_appends_once:
  fixes header :: "string list" and rows :: "string list list" and newData :: newData
    and h :: heap
  defines "fields \<equiv> renameFirst header"
    and "existing \<equiv> map (newItem (renameFirst header)) rows"
    and "refs \<equiv> (case newData of Single a \<Rightarrow> [a] | Many as \<Rightarrow> as)"
  shows
    "(\<forall>calls outcome.
        insert_op numToString (Some (header # rows)) newData h draws = Some (calls, outcome) \<longrightarrow>
        (\<exists>h'. outcome = Inr (refs, h')
           \<and> calls = [ValuesGet, ValuesGet,
                      ValuesAppend (map (\<lambda>a. convertObjectToRow numToString fields (h' a)) refs)]
           \<and> (\<forall>a \<in> set refs. getProp (h a) ''ID'' = JUndefined \<longrightarrow>
                 (\<exists>w \<in> set draws. h' a = setProp (h a) ''ID'' (JStr (proposeId w))
                    \<and> getProp (h' a) ''ID'' = JStr (proposeId w)
                    \<and> length (proposeId w) = 8 \<and> list_all upperHexChar (proposeId w)))
           \<and> (\<forall>a \<in> set refs. getProp (h a) ''ID'' \<noteq> JUndefined \<longrightarrow> h' a = h a)
           \<and> (\<forall>pre a post. refs = pre @ a # post \<longrightarrow> a \<notin> set pre \<longrightarrow>
                 getProp (h a) ''ID'' = JUndefined \<longrightarrow>
                 (\<forall>r \<in> set existing. getProp r ''ID'' \<noteq> getProp (h' a) ''ID'')
                 \<and> (\<forall>b \<in> set pre. getProp (h' b) ''ID'' \<noteq> getProp (h' a) ''ID''))))
     \<and> (length (filter (\<lambda>a. getProp (h a) ''ID'' = JUndefined) refs)
           \<le> length (unusedIds h (map Fetched existing @ map Given refs) draws) \<longrightarrow>
         (\<exists>calls h'. insert_op numToString (Some (header # rows)) newData h draws
                        = Some (calls, Inr (refs, h'))))"
proof (intro conjI allI impI)
  fix calls outcome
  assume run: "insert_op numToString (Some (header # rows)) newData h draws = Some (calls, outcome)"
  from insert_op_result [OF run] obtain h' where
    out: "outcome = Inr (refs, h')"
    and cs: "calls = [ValuesGet, ValuesGet,
              ValuesAppend (map (\<lambda>a. convertObjectToRow numToString fields (h' a)) refs)]"
    and asg: "\<forall>a. a \<in> set refs \<longrightarrow> getProp (h a) ''ID'' = JUndefined \<longrightarrow>
        (\<exists>w \<in> set draws. h' a = setProp (h a) ''ID'' (JStr (proposeId w)))"
    and frame: "\<forall>a. \<not> (a \<in> set refs \<and> getProp (h a) ''ID'' = JUndefined) \<longrightarrow> h' a = h a"
    and fresh: "\<forall>pre a post. refs = pre @ a # post \<longrightarrow>
        a \<notin> set pre \<longrightarrow> getProp (h a) ''ID'' = JUndefined \<longrightarrow>
        (\<forall>r \<in> set existing. getProp r ''ID'' \<noteq> getProp (h' a) ''ID'')
        \<and> (\<forall>b \<in> set pre. getProp (h' b) ''ID'' \<noteq> getProp (h' a) ''ID'')"
    unfolding refs_def fields_def existing_def by (elim exE conjE)
  have ids: "\<forall>a \<in> set refs. getProp (h a) ''ID'' = JUndefined \<longrightarrow>
                 (\<exists>w \<in> set draws. h' a = setProp (h a) ''ID'' (JStr (proposeId w))
                    \<and> getProp (h' a) ''ID'' = JStr (proposeId w)
                    \<and> length (proposeId w) = 8 \<and> list_all upperHexChar (proposeId w))"
  proof (intro ballI impI)
    fix a assume "a \<in> set refs" "getProp (h a) ''ID'' = JUndefined"
    with asg obtain w where "w \<in> set draws"
      "h' a = setProp (h a) ''ID'' (JStr (proposeId w))" by blast
    with proposeId_shape [of w]
    show "\<exists>w \<in> set draws. h' a = setProp (h a) ''ID'' (JStr (proposeId w))
                    \<and> getProp (h' a) ''ID'' = JStr (proposeId w)
                    \<and> length (proposeId w) = 8 \<and> list_all upperHexChar (proposeId w)"
      by (auto simp: getProp_ID_set)
  qed
  have kept: "\<forall>a \<in> set refs. getProp (h a) ''ID'' \<noteq> JUndefined \<longrightarrow> h' a = h a"
    using frame by blast
  from out cs ids kept fresh
  show "\<exists>h'. outcome = Inr (refs, h')
           \<and> calls = [ValuesGet, ValuesGet,
                      ValuesAppend (map (\<lambda>a. convertObjectToRow numToString fields (h' a)) refs)]
           \<and> (\<forall>a \<in> set refs. getProp (h a) ''ID'' = JUndefined \<longrightarrow>
                 (\<exists>w \<in> set draws. h' a = setProp (h a) ''ID'' (JStr (proposeId w))
                    \<and> getProp (h' a) ''ID'' = JStr (proposeId w)
                    \<and> length (proposeId w) = 8 \<and> list_all upperHexChar (proposeId w)))
           \<and> (\<forall>a \<in> set refs. getProp (h a) ''ID'' \<noteq> JUndefined \<longrightarrow> h' a = h a)
           \<and> (\<forall>pre a post. refs = pre @ a # post \<longrightarrow> a \<notin> set pre \<longrightarrow>
                 getProp (h a) ''ID'' = JUndefined \<longrightarrow>
                 (\<forall>r \<in> set existing. getProp r ''ID'' \<noteq> getProp (h' a) ''ID'')
                 \<and> (\<forall>b \<in> set pre. getProp (h' b) ''ID'' \<noteq> getProp (h' a) ''ID''))"
    by (intro exI [of _ h'] conjI)
next
  assume "length (filter (\<lambda>a. getProp (h a) ''ID'' = JUndefined) refs)
           \<le> length (unusedIds h (map Fetched existing @ map Given refs) draws)"
  from insertLoop_returns [OF this, of numToString "renameFirst header" "[]"]
  obtain h' data' newRows draws' where
    "insertLoop numToString (renameFirst header) refs (h, map Fetched existing, [], draws)
       = Some (h', data', newRows, draws')"
    by (metis prod_cases4)
  then show "\<exists>calls h'. insert_op numToString (Some (header # rows)) newData h draws
                        = Some (calls, Inr (refs, h'))"
    by (simp add: insert_op_loop refs_def existing_def)
qed

theorem insert_batch_witness:
  "length (filter (\<lambda>a. getProp ((\<lambda>a :: nat.
        if a = 0 then Obj [(''Status'', JStr '' new '')] []
        else if a = 1 then Obj [(''ID'', JStr ''mine''), (''Status'', JStr ''old'')] []
        else Obj [] []) a) ''ID'' = JUndefined) [0, 1, 2])
     \<le> length (unusedIds (\<lambda>a :: nat.
        if a = 0 then Obj [(''Status'', JStr '' new '')] []
        else if a = 1 then Obj [(''ID'', JStr ''mine''), (''Status'', JStr ''old'')] []
        else Obj [] [])
          (map Fetched (map (newItem (renameFirst [''Name'', ''Status''])) [[''DEADBEEF'', ''open'']])
           @ map Given [0, 1, 2])
          [0xDEADBEEF, 1, 1, 2])
   \<and> (\<exists>calls h'.
         insert_op (\<lambda>n. '''') (Some [[''Name'', ''Status''], [''DEADBEEF'', ''open'']]) (Many [0, 1, 2])
           (\<lambda>a :: nat.
              if a = 0 then Obj [(''Status'', JStr '' new '')] []
              else if a = 1 then Obj [(''ID'', JStr ''mine''), (''Status'', JStr ''old'')] []
              else Obj [] [])
           [0xDEADBEEF, 1, 1, 2] = Some (calls, Inr ([0, 1, 2], h'))
         \<and> calls = [ValuesGet, ValuesGet,
                    ValuesAppend (map (\<lambda>a. convertObjectToRow (\<lambda>n. '''')
                                          (renameFirst [''Name'', ''Status'']) (h' a)) [0, 1, 2])]
         \<and> h' 1 = Obj [(''ID'', JStr ''mine''), (''Status'', JStr ''old'')] []
         \<and> getProp (h' 0) ''ID'' \<noteq> JStr ''DEADBEEF''
         \<and> getProp (h' 0) ''ID'' \<noteq> getProp (h' 2) ''ID'')
   \<and> (case insert_op (\<lambda>n. '''') (Some [[''Name'', ''Status''], [''DEADBEEF'', ''open'']])
              (Many [0, 1, 2])
              (\<lambda>a :: nat.
                 if a = 0 then Obj [(''Status'', JStr '' new '')] []
                 else if a = 1 then Obj [(''ID'', JStr ''mine''), (''Status'', JStr ''old'')] []
                 else Obj [] [])
              [0xDEADBEEF, 1, 1, 2] of
         Some (calls, Inr (res, h')) \<Rightarrow>
           calls = [ValuesGet, ValuesGet,
                    ValuesAppend [[''00000001'', ''new''], [''mine'', ''old''], [''00000002'', '''']]]
           \<and> res = [0, 1, 2]
           \<and> map h' [0, 1, 2] =
               [Obj [(''Status'', JStr '' new ''), (''ID'', JStr ''00000001'')] [],
                Obj [(''ID'', JStr ''mine''), (''Status'', JStr ''old'')] [],
                Obj [(''ID'', JStr ''00000002'')] []]
       | _ \<Rightarrow> False)"
proof -
  let ?hp = "\<lambda>a :: nat.
        if a = 0 then Obj [(''Status'', JStr '' new '')] []
        else if a = 1 then Obj [(''ID'', JStr ''mine''), (''Status'', JStr ''old'')] []
        else Obj [] []"
  let ?header = "[''Name'', ''Status'']"
  let ?rows = "[[''DEADBEEF'', ''open'']]"
  let ?draws = "[0xDEADBEEF, 1, 1, 2] :: 32 word list"
  have enough: "length (filter (\<lambda>a. getProp (?hp a) ''ID'' = JUndefined) [0, 1, 2])
     \<le> length (unusedIds ?hp
          (map Fetched (map (newItem (renameFirst ?header)) ?rows) @ map Given [0, 1, 2]) ?draws)"
    by code_simp
  have concrete: "case insert_op (\<lambda>n. '''') (Some [?header, [''DEADBEEF'', ''open'']])
              (Many [0, 1, 2]) ?hp ?draws of
         Some (calls, Inr (res, h')) \<Rightarrow>
           calls = [ValuesGet, ValuesGet,
                    ValuesAppend [[''00000001'', ''new''], [''mine'', ''old''], [''00000002'', '''']]]
           \<and> res = [0, 1, 2]
           \<and> map h' [0, 1, 2] =
               [Obj [(''Status'', JStr '' new ''), (''ID'', JStr ''00000001'')] [],
                Obj [(''ID'', JStr ''mine''), (''Status'', JStr ''old'')] [],
                Obj [(''ID'', JStr ''00000002'')] []]
       | _ \<Rightarrow> False"
    by code_simp
  have old: "getProp (newItem (renameFirst ?header) [''DEADBEEF'', ''open'']) ''ID'' = JStr ''DEADBEEF''"
    by code_simp
  note t = insert_assigns_fresh_ids_and_appends_once
    [where header = ?header and rows = ?rows and newData = "Many [0, 1, 2]" and h = ?hp
       and draws = ?draws and numToString = "\<lambda>n. ''''"]
  from t [THEN conjunct2] enough obtain calls h' where
    run: "insert_op (\<lambda>n. '''') (Some (?header # ?rows)) (Many [0, 1, 2]) ?hp ?draws
            = Some (calls, Inr ([0, 1, 2], h'))"
    by auto
  from t [THEN conjunct1, rule_format, OF run] obtain h'' where
    out: "(Inr ([0, 1, 2], h') :: error + addr list \<times> heap) = Inr ([0, 1, 2], h'')"
    and rest: "calls = [ValuesGet, ValuesGet,
                    ValuesAppend (map (\<lambda>a. convertObjectToRow (\<lambda>n. '''')
                                          (renameFirst ?header) (h'' a)) [0, 1, 2])]
      \<and> (\<forall>a \<in> set [0, 1, 2]. getProp (?hp a) ''ID'' = JUndefined \<longrightarrow>
            (\<exists>w \<in> set ?draws. h'' a = setProp (?hp a) ''ID'' (JStr (proposeId w))
               \<and> getProp (h'' a) ''ID'' = JStr (proposeId w)
               \<and> length (proposeId w) = 8 \<and> list_all upperHexChar (proposeId w)))
      \<and> (\<forall>a \<in> set [0, 1, 2]. getProp (?hp a) ''ID'' \<noteq> JUndefined \<longrightarrow> h'' a = ?hp a)
      \<and> (\<forall>pre a post. [0, 1, 2] = pre @ a # post \<longrightarrow> a \<notin> set pre \<longrightarrow>
                 getProp (?hp a) ''ID'' = JUndefined \<longrightarrow>
                 (\<forall>r \<in> set (map (newItem (renameFirst ?header)) ?rows).
                     getProp r ''ID'' \<noteq> getProp (h'' a) ''ID'')
                 \<and> (\<forall>b \<in> set pre. getProp (h'' b) ''ID'' \<noteq> getProp (h'' a) ''ID''))"
    apply (simp only: newData.case)
    apply (erule exE)
    apply (erule conjE)
    apply (rule that; assumption)
    done
  note cs = rest [THEN conjunct1]
    and kept = rest [THEN conjunct2, THEN conjunct2, THEN conjunct1]
    and fresh = rest [THEN conjunct2, THEN conjunct2, THEN conjunct2]
  from out have same: "h'' = h'" by simp
  from kept have k1: "h'' 1 = ?hp 1" by (simp add: getProp_def)
  from fresh [rule_format, of "[]" 0 "[1, 2]"] old
  have f0: "getProp (h'' 0) ''ID'' \<noteq> JStr ''DEADBEEF''" by (simp add: getProp_def)
  from fresh [rule_format, of "[0, 1]" 2 "[]"]
  have f2: "getProp (h'' 0) ''ID'' \<noteq> getProp (h'' 2) ''ID''" by (simp add: getProp_def)
  from run cs k1 f0 f2 have "insert_op (\<lambda>n. '''') (Some (?header # ?rows)) (Many [0, 1, 2]) ?hp ?draws
            = Some (calls, Inr ([0, 1, 2], h'))
         \<and> calls = [ValuesGet, ValuesGet,
                    ValuesAppend (map (\<lambda>a. convertObjectToRow (\<lambda>n. '''')
                                          (renameFirst ?header) (h' a)) [0, 1, 2])]
         \<and> h' 1 = Obj [(''ID'', JStr ''mine''), (''Status'', JStr ''old'')] []
         \<and> getProp (h' 0) ''ID'' \<noteq> JStr ''DEADBEEF''
         \<and> getProp (h' 0) ''ID'' \<noteq> getProp (h' 2) ''ID''"
    unfolding same by simp
  then have ex: "\<exists>calls h'. insert_op (\<lambda>n. '''') (Some (?header # ?rows)) (Many [0, 1, 2]) ?hp ?draws
            = Some (calls, Inr ([0, 1, 2], h'))
         \<and> calls = [ValuesGet, ValuesGet,
                    ValuesAppend (map (\<lambda>a. convertObjectToRow (\<lambda>n. '''')
                                          (renameFirst ?header) (h' a)) [0, 1, 2])]
         \<and> h' 1 = Obj [(''ID'', JStr ''mine''), (''Status'', JStr ''old'')] []
         \<and> getProp (h' 0) ''ID'' \<noteq> JStr ''DEADBEEF''
         \<and> getProp (h' 0) ''ID'' \<noteq> getProp (h' 2) ''ID''"
    by blast
  from enough ex concrete show ?thesis by (intro conjI)
qed

text \<open>
  Claim C10. \<^verbatim>\<open>_insert\<close> writes the identifier into the object its caller passed: whenever
  it returns, the array it returns holds the addresses it was given, in order (one address
  wrapped in an array when the argument is a single record); at the address of every input
  record that had no identifier the store now holds that same object with \<open>ID\<close> set to the
  identifier made from a draw; every other object of the store is as it was. It returns
  whenever the draws offer enough unused identifiers.
\<close>

theorem insert_mutates_in_place:
  fixes newData :: newData and h :: heap
  defines "refs \<equiv> (case newData of Single a \<Rightarrow> [a] | Many as \<Rightarrow> as)"
  shows
    "(\<forall>calls outcome.
        insert_op numToString (Some (header # rows)) newData h draws = Some (calls, outcome) \<longrightarrow>
        (\<exists>h'. outcome = Inr (refs, h')
           \<and> (\<forall>a. a \<in> set refs \<longrightarrow> getProp (h a) ''ID'' = JUndefined \<longrightarrow>
                 (\<exists>w \<in> set draws. h' a = setProp (h a) ''ID'' (JStr (proposeId w))))
           \<and> (\<forall>a. \<not> (a \<in> set refs \<and> getProp (h a) ''ID'' = JUndefined) \<longrightarrow> h' a = h a)))
     \<and> (\<forall>a. newData = Single a \<longrightarrow> refs = [a])
     \<and> (\<forall>as. newData = Many as \<longrightarrow> refs = as)
     \<and> (length (filter (\<lambda>a. getProp (h a) ''ID'' = JUndefined) refs)
           \<le> length (unusedIds h
                 (map Fetched (map (newItem (renameFirst header)) rows) @ map Given refs) draws) \<longrightarrow>
         (\<exists>calls h'. insert_op numToString (Some (header # rows)) newData h draws
                        = Some (calls, Inr (refs, h'))))"
proof (intro conjI allI impI)
  fix calls outcome
  assume run: "insert_op numToString (Some (header # rows)) newData h draws = Some (calls, outcome)"
  from insert_op_result [OF run] obtain h' where
    out: "outcome = Inr (refs, h')"
    and asg: "\<forall>a. a \<in> set refs \<longrightarrow> getProp (h a) ''ID'' = JUndefined \<longrightarrow>
        (\<exists>w \<in> set draws. h' a = setProp (h a) ''ID'' (JStr (proposeId w)))"
    and frame: "\<forall>a. \<not> (a \<in> set refs \<and> getProp (h a) ''ID'' = JUndefined) \<longrightarrow> h' a = h a"
    unfolding refs_def by (elim exE conjE)
  then show "\<exists>h'. outcome = Inr (refs, h')
           \<and> (\<forall>a. a \<in> set refs \<longrightarrow> getProp (h a) ''ID'' = JUndefined \<longrightarrow>
                 (\<exists>w \<in> set draws. h' a = setProp (h a) ''ID'' (JStr (proposeId w))))
           \<and> (\<forall>a. \<not> (a \<in> set refs \<and> getProp (h a) ''ID'' = JUndefined) \<longrightarrow> h' a = h a)"
    by (intro exI [of _ h'] conjI)
next
  fix a assume "newData = Single a"
  then show "refs = [a]" by (simp add: refs_def)
next
  fix as assume "newData = Many as"
  then show "refs = as" by (simp add: refs_def)
next
  assume "length (filter (\<lambda>a. getProp (h a) ''ID'' = JUndefined) refs)
           \<le> length (unusedIds h
                 (map Fetched (map (newItem (renameFirst header)) rows) @ map Given refs) draws)"
  from insertLoop_returns [OF this, of numToString "renameFirst header" "[]"]
  obtain h' data' newRows draws' where
    "insertLoop numToString (renameFirst header) refs
       (h, map Fetched (map (newItem (renameFirst header)) rows), [], draws)
       = Some (h', data', newRows, draws')"
    by (metis prod_cases4)
  then show "\<exists>calls h'. insert_op numToString (Some (header # rows)) newData h draws
                        = Some (calls, Inr (refs, h'))"
    by (simp add: insert_op_loop refs_def)
qed

theorem insert_single_witness:
  "length (filter (\<lambda>a. getProp ((\<lambda>a :: nat. if a = 0 then Obj [(''Name'', JStr ''X'')] [] else Obj [] []) a)
                         ''ID'' = JUndefined) [0])
     \<le> length (unusedIds (\<lambda>a :: nat. if a = 0 then Obj [(''Name'', JStr ''X'')] [] else Obj [] [])
          (map Fetched (map (newItem (renameFirst [''Code'', ''Name''])) [[''0000002A'', ''W'']])
           @ map Given [0])
          [0x2A, 0x2B])
   \<and> proposeId 0x2A = ''0000002A'' \<and> proposeId 0x2B = ''0000002B''
   \<and> (\<exists>calls h'.
         insert_op (\<lambda>n. '''') (Some [[''Code'', ''Name''], [''0000002A'', ''W'']]) (Single 0)
           (\<lambda>a :: nat. if a = 0 then Obj [(''Name'', JStr ''X'')] [] else Obj [] [])
           [0x2A, 0x2B] = Some (calls, Inr ([0], h'))
         \<and> (h' 0 = setProp (Obj [(''Name'', JStr ''X'')] []) ''ID'' (JStr ''0000002A'')
             \<or> h' 0 = setProp (Obj [(''Name'', JStr ''X'')] []) ''ID'' (JStr ''0000002B''))
         \<and> h' 1 = Obj [] [])
   \<and> (case insert_op (\<lambda>n. '''') (Some [[''Code'', ''Name''], [''0000002A'', ''W'']]) (Single 0)
           (\<lambda>a :: nat. if a = 0 then Obj [(''Name'', JStr ''X'')] [] else Obj [] [])
           [0x2A, 0x2B] of
         Some (calls, Inr (res, h')) \<Rightarrow>
           res = [0] \<and> h' 0 = Obj [(''Name'', JStr ''X''), (''ID'', JStr ''0000002B'')] []
       | _ \<Rightarrow> False)"
proof -
  let ?hp = "\<lambda>a :: nat. if a = 0 then Obj [(''Name'', JStr ''X'')] [] else Obj [] []"
  let ?header = "[''Code'', ''Name'']"
  let ?rows = "[[''0000002A'', ''W'']]"
  let ?draws = "[0x2A, 0x2B] :: 32 word list"
  have enough: "length (filter (\<lambda>a. getProp (?hp a) ''ID'' = JUndefined) [0])
     \<le> length (unusedIds ?hp
          (map Fetched (map (newItem (renameFirst ?header)) ?rows) @ map Given [0]) ?draws)"
    by code_simp
  have ids: "proposeId 0x2A = ''0000002A''" "proposeId 0x2B = ''0000002B''"
    by code_simp+
  have concrete: "case insert_op (\<lambda>n. '''') (Some [?header, [''0000002A'', ''W'']]) (Single 0)
           ?hp ?draws of
         Some (calls, Inr (res, h')) \<Rightarrow>
           res = [0] \<and> h' 0 = Obj [(''Name'', JStr ''X''), (''ID'', JStr ''0000002B'')] []
       | _ \<Rightarrow> False"
    by code_simp
  note t = insert_mutates_in_place
    [where header = ?header and rows = ?rows and newData = "Single 0" and h = ?hp
       and draws = ?draws and numToString = "\<lambda>n. ''''"]
  from t enough obtain calls h' where
    run: "insert_op (\<lambda>n. '''') (Some (?header # ?rows)) (Single 0) ?hp ?draws
            = Some (calls, Inr ([0], h'))"
    by auto
  from t [THEN conjunct1, rule_format, OF run] obtain h'' where
    out: "(Inr ([0], h') :: error + addr list \<times> heap) = Inr ([0], h'')"
    and rest: "(\<forall>a. a \<in> set [0] \<longrightarrow> getProp (?hp a) ''ID'' = JUndefined \<longrightarrow>
                 (\<exists>w \<in> set ?draws. h'' a = setProp (?hp a) ''ID'' (JStr (proposeId w))))
      \<and> (\<forall>a. \<not> (a \<in> set [0] \<and> getProp (?hp a) ''ID'' = JUndefined) \<longrightarrow> h'' a = ?hp a)"
    apply (simp only: newData.case)
    apply (erule exE)
    apply (erule conjE)
    apply (rule that; assumption)
    done
  note asg = rest [THEN conjunct1] and frame = rest [THEN conjunct2]
  from out have same: "h'' = h'" by simp
  from asg [rule_format, of 0] ids
  have a0: "h'' 0 = setProp (Obj [(''Name'', JStr ''X'')] []) ''ID'' (JStr ''0000002A'')
             \<or> h'' 0 = setProp (Obj [(''Name'', JStr ''X'')] []) ''ID'' (JStr ''0000002B'')"
    by (simp add: getProp_def)
  from frame [rule_format, of 1] have a1: "h'' 1 = Obj [] []" by simp
  from run a0 a1 have "\<exists>calls h'.
         insert_op (\<lambda>n. '''') (Some (?header # ?rows)) (Single 0) ?hp ?draws
           = Some (calls, Inr ([0], h'))
         \<and> (h' 0 = setProp (Obj [(''Name'', JStr ''X'')] []) ''ID'' (JStr ''0000002A'')
             \<or> h' 0 = setProp (Obj [(''Name'', JStr ''X'')] []) ''ID'' (JStr ''0000002B''))
         \<and> h' 1 = Obj [] []"
    unfolding same by blast
  with enough ids concrete show ?thesis by (intro conjI)
qed

end
